theory Spec2Isabelle
  imports Main "HOL-Library.AList" "HOL-Library.Word"
begin

text \<open>
  A verification development for the in-memory key-value engine of \<open>@synet/kv\<close>:
  the default serialization codec, the final \<open>MemoryAdapter\<close>, its two sibling adapters
  (the event-emitting one and \<open>EnhancedMemoryAdapter\<close>) and the \<open>set\<close> of the
  \<open>KeyValue\<close> facade. Definitions come first, theorems after them.
\<close>

section \<open>Errors\<close>

text \<open>Every \<open>throw\<close> of the modelled code is a value of this type.\<close>

datatype error =
    MaxKeysLimit int          \<comment> \<open>\<open>Maximum keys limit (N) reached\<close>, thrown by \<open>set\<close>\<close>
  | CodecError string         \<comment> \<open>whatever a serialization function throws\<close>
  | KeyMustBeNonEmpty         \<comment> \<open>facade: \<open>Key must be a non-empty string\<close>\<close>
  | ValueCannotBeUndefined    \<comment> \<open>facade: \<open>Value cannot be undefined\<close>\<close>
  | FailedToSetKey error      \<comment> \<open>facade: \<open>Failed to set key: <message>\<close>\<close>

section \<open>JavaScript values and the host's JSON and base64 functions\<close>

text \<open>
  The values the codec is given: \<open>undefined\<close>, \<open>null\<close>, booleans, numbers, strings,
  \<open>Buffer\<close>s, arrays and plain objects. Numbers are the integers (\<open>NaN\<close>, infinities
  and fractions are outside the model), a string is a list of 8-bit characters, a
  \<open>Buffer\<close> a list of bytes, an object the list of its own enumerable properties in
  enumeration order. Observable equality of two values is equality of their models.

  \<open>JSON.stringify\<close>, \<open>JSON.parse\<close>, \<open>Buffer.toString("base64")\<close> and
  \<open>Buffer.from(s, "base64")\<close> are functions of the host, not of the repository; they
  are modelled here on these values, so that the codec can be run on concrete inputs.
\<close>

type_synonym byte = "8 word"

datatype jsval =
    JUndefined
  | JNull
  | JBool bool
  | JNum int
  | JStr string
  | JBuf "byte list"
  | JArr "jsval list"
  | JObj "(string \<times> jsval) list"

text \<open>The double quote and the backslash, by their codes.\<close>

definition dquote :: char where "dquote = CHR 0x22"
definition backslash :: char where "backslash = CHR 0x5C"

definition quoted :: "string \<Rightarrow> string" where
  "quoted s = dquote # s @ [dquote]"

definition startsWith :: "string \<Rightarrow> string \<Rightarrow> bool" where
  "startsWith s p = (take (length p) s = p)"

fun join :: "string \<Rightarrow> string list \<Rightarrow> string" where
  "join sep [] = []"
| "join sep [x] = x"
| "join sep (x # y # ys) = x @ sep @ join sep (y # ys)"

subsection \<open>Numbers\<close>

definition digit_char :: "nat \<Rightarrow> char" where
  "digit_char d = char_of (48 + d)"

fun show_nat :: "nat \<Rightarrow> string" where
  "show_nat n = (if n < 10 then [digit_char n] else show_nat (n div 10) @ [digit_char (n mod 10)])"

declare show_nat.simps [simp del]

definition show_int :: "int \<Rightarrow> string" where
  "show_int i = (if i < 0 then CHR ''-'' # show_nat (nat (- i)) else show_nat (nat i))"

definition is_digit :: "char \<Rightarrow> bool" where
  "is_digit c = (48 \<le> (of_char c :: nat) \<and> (of_char c :: nat) \<le> 57)"

definition digits_value :: "string \<Rightarrow> nat" where
  "digits_value ds = foldl (\<lambda>acc c. acc * 10 + ((of_char c :: nat) - 48)) 0 ds"

subsection \<open>base64\<close>

text \<open>
  \<open>toBase64\<close> is \<open>buf.toString("base64")\<close>: three bytes give four characters of the
  standard alphabet, a last group of one or two bytes is padded with \<open>=\<close>.
  \<open>fromBase64\<close> is \<open>Buffer.from(s, "base64")\<close>: it reads up to the first \<open>=\<close>, skips
  every character outside the alphabet (the URL-safe \<open>-\<close> and \<open>_\<close> count as \<open>+\<close> and
  \<open>/\<close>), and turns each group of four sextets into three bytes, a last group of three
  or two into two bytes or one.
\<close>

definition base64_alphabet :: string where
  "base64_alphabet = ''ABCDEFGHIJKLMNOPQRSTUVWXYZabcdefghijklmnopqrstuvwxyz0123456789+/''"

definition b64 :: "nat \<Rightarrow> char" where
  "b64 n = base64_alphabet ! (n mod 64)"

fun toBase64 :: "byte list \<Rightarrow> string" where
  "toBase64 [] = []"
| "toBase64 [a] =
     [b64 (unat a div 4), b64 ((unat a mod 4) * 16), CHR ''='', CHR ''='']"
| "toBase64 [a, b] =
     [b64 (unat a div 4), b64 ((unat a mod 4) * 16 + unat b div 16),
      b64 ((unat b mod 16) * 4), CHR ''='']"
| "toBase64 (a # b # c # rest) =
     [b64 (unat a div 4), b64 ((unat a mod 4) * 16 + unat b div 16),
      b64 ((unat b mod 16) * 4 + unat c div 64), b64 (unat c mod 64)] @ toBase64 rest"

fun index_of :: "char \<Rightarrow> string \<Rightarrow> nat \<Rightarrow> nat option" where
  "index_of c [] i = None"
| "index_of c (x # xs) i = (if c = x then Some i else index_of c xs (Suc i))"

definition unb64 :: "char \<Rightarrow> nat option" where
  "unb64 c =
     (if c = CHR ''-'' then Some 62 else if c = CHR ''_'' then Some 63
      else index_of c base64_alphabet 0)"

fun fromSextets :: "nat list \<Rightarrow> byte list" where
  "fromSextets (a # b # c # d # rest) =
     [of_nat (a * 4 + b div 16), of_nat ((b mod 16) * 16 + c div 4), of_nat ((c mod 4) * 64 + d)]
       @ fromSextets rest"
| "fromSextets [a, b, c] = [of_nat (a * 4 + b div 16), of_nat ((b mod 16) * 16 + c div 4)]"
| "fromSextets [a, b] = [of_nat (a * 4 + b div 16)]"
| "fromSextets [a] = []"
| "fromSextets [] = []"

definition fromBase64 :: "string \<Rightarrow> byte list" where
  "fromBase64 s = fromSextets (List.map_filter unb64 (takeWhile (\<lambda>c. c \<noteq> CHR ''='') s))"

subsection \<open>JSON.stringify\<close>

text \<open>
  \<open>QuoteJSONString\<close> escapes the quote, the backslash and the control characters;
  \<open>SerializeJSONProperty\<close> returns \<open>None\<close> where \<open>JSON.stringify\<close> returns
  \<open>undefined\<close>. An \<open>undefined\<close> array element prints as \<open>null\<close>, an object property
  whose value is \<open>undefined\<close> is left out, and a \<open>Buffer\<close> prints through its
  \<open>toJSON\<close>, as an object with the fields \<open>type\<close> and \<open>data\<close>.
\<close>

definition hex_char :: "nat \<Rightarrow> char" where
  "hex_char d = ''0123456789abcdef'' ! (d mod 16)"

definition escape_char :: "char \<Rightarrow> string" where
  "escape_char c =
     (if c = dquote then [backslash, dquote]
      else if c = backslash then [backslash, backslash]
      else if c = CHR 0x08 then [backslash, CHR ''b'']
      else if c = CHR 0x0C then [backslash, CHR ''f'']
      else if c = CHR 0x0A then [backslash, CHR ''n'']
      else if c = CHR 0x0D then [backslash, CHR ''r'']
      else if c = CHR 0x09 then [backslash, CHR ''t'']
      else if (of_char c :: nat) < 32 then
        [backslash, CHR ''u'', CHR ''0'', CHR ''0'', hex_char (of_char c div 16), hex_char (of_char c mod 16)]
      else [c])"

definition QuoteJSONString :: "string \<Rightarrow> string" where
  "QuoteJSONString s = quoted (concat (map escape_char s))"

fun SerializeJSONProperty :: "jsval \<Rightarrow> string option"
  and SerializeJSONArray :: "jsval list \<Rightarrow> string list"
  and SerializeJSONObject :: "(string \<times> jsval) list \<Rightarrow> string list" where
  "SerializeJSONProperty JUndefined = None"
| "SerializeJSONProperty JNull = Some ''null''"
| "SerializeJSONProperty (JBool b) = Some (if b then ''true'' else ''false'')"
| "SerializeJSONProperty (JNum n) = Some (show_int n)"
| "SerializeJSONProperty (JStr s) = Some (QuoteJSONString s)"
| "SerializeJSONProperty (JBuf bs) =
     Some (''{'' @ QuoteJSONString ''type'' @ '':'' @ QuoteJSONString ''Buffer'' @ '',''
           @ QuoteJSONString ''data'' @ '':['' @ join '','' (map (\<lambda>b. show_nat (unat b)) bs) @ '']}'')"
| "SerializeJSONProperty (JArr xs) = Some (''['' @ join '','' (SerializeJSONArray xs) @ '']'')"
| "SerializeJSONProperty (JObj ms) = Some (''{'' @ join '','' (SerializeJSONObject ms) @ ''}'')"
| "SerializeJSONArray [] = []"
| "SerializeJSONArray (x # xs) =
     (case SerializeJSONProperty x of None \<Rightarrow> ''null'' | Some t \<Rightarrow> t) # SerializeJSONArray xs"
| "SerializeJSONObject [] = []"
| "SerializeJSONObject ((k, v) # ms) =
     (case SerializeJSONProperty v of
        None \<Rightarrow> SerializeJSONObject ms
      | Some t \<Rightarrow> (QuoteJSONString k @ '':'' @ t) # SerializeJSONObject ms)"

text \<open>
  \<open>JSON.stringify\<close> as the codec uses it, in string position. It yields \<open>undefined\<close>
  for \<open>undefined\<close> alone, which the codec never passes it.
\<close>

definition JSON_stringify :: "jsval \<Rightarrow> string" where
  "JSON_stringify v = (case SerializeJSONProperty v of Some t \<Rightarrow> t | None \<Rightarrow> ''undefined'')"

subsection \<open>JSON.parse\<close>

text \<open>
  A recursive-descent reader for JSON texts: white space, the three literals, integer
  numerals, strings with their escapes, arrays and objects. \<open>None\<close> is the
  \<open>SyntaxError\<close>. A numeral with a fraction or an exponent, and a \<open>u\<close> escape above
  \<open>00ff\<close>, denote values outside this model of numbers and characters and are refused
  as well. The reader recurses on a fuel argument; \<open>JSON_parse_text\<close> gives it more
  fuel than the text has characters. A repeated member name of an object overwrites the
  earlier value in place, as property assignment does.
\<close>

definition is_ws :: "char \<Rightarrow> bool" where
  "is_ws c = (c = CHR '' '' \<or> c = CHR 0x09 \<or> c = CHR 0x0A \<or> c = CHR 0x0D)"

definition skip_ws :: "string \<Rightarrow> string" where
  "skip_ws cs = dropWhile is_ws cs"

definition hex_value :: "char \<Rightarrow> nat option" where
  "hex_value c =
     (let n = (of_char c :: nat) in
      if 48 \<le> n \<and> n \<le> 57 then Some (n - 48)
      else if 97 \<le> n \<and> n \<le> 102 then Some (n - 87)
      else if 65 \<le> n \<and> n \<le> 70 then Some (n - 55)
      else None)"

definition unescape_char :: "char \<Rightarrow> char option" where
  "unescape_char e =
     (if e = dquote then Some dquote
      else if e = backslash then Some backslash
      else if e = CHR ''/'' then Some CHR ''/''
      else if e = CHR ''b'' then Some (CHR 0x08)
      else if e = CHR ''f'' then Some (CHR 0x0C)
      else if e = CHR ''n'' then Some (CHR 0x0A)
      else if e = CHR ''r'' then Some (CHR 0x0D)
      else if e = CHR ''t'' then Some (CHR 0x09)
      else None)"

definition hex4 :: "char \<Rightarrow> char \<Rightarrow> char \<Rightarrow> char \<Rightarrow> nat option" where
  "hex4 a b c d =
     (case (hex_value a, hex_value b, hex_value c, hex_value d) of
        (Some w, Some x, Some y, Some z) \<Rightarrow> Some (((w * 16 + x) * 16 + y) * 16 + z)
      | _ \<Rightarrow> None)"

fun parse_string_chars :: "string \<Rightarrow> (string \<times> string) option" where
  "parse_string_chars [] = None"
| "parse_string_chars (c # cs) =
     (if c = dquote then Some ([], cs)
      else if c = backslash then
        (case cs of
           [] \<Rightarrow> None
         | e # cs1 \<Rightarrow>
             if e = CHR ''u'' then
               (case cs1 of
                  h1 # h2 # h3 # h4 # cs2 \<Rightarrow>
                    (case hex4 h1 h2 h3 h4 of
                       None \<Rightarrow> None
                     | Some n \<Rightarrow>
                         if n < 256 then
                           map_option (\<lambda>(s, r). (char_of n # s, r)) (parse_string_chars cs2)
                         else None)
                | _ \<Rightarrow> None)
             else
               (case unescape_char e of
                  None \<Rightarrow> None
                | Some ch \<Rightarrow> map_option (\<lambda>(s, r). (ch # s, r)) (parse_string_chars cs1)))
      else if (of_char c :: nat) < 32 then None
      else map_option (\<lambda>(s, r). (c # s, r)) (parse_string_chars cs))"

definition parse_number :: "string \<Rightarrow> (int \<times> string) option" where
  "parse_number cs =
     (let neg = (cs \<noteq> [] \<and> hd cs = CHR ''-'');
          body = (if neg then tl cs else cs);
          ds = takeWhile is_digit body;
          rest = dropWhile is_digit body
      in if ds = [] then None
         else if hd ds = CHR ''0'' \<and> length ds > 1 then None
         else if rest \<noteq> [] \<and> (hd rest = CHR ''.'' \<or> hd rest = CHR ''e'' \<or> hd rest = CHR ''E'') then None
         else Some (if neg then - int (digits_value ds) else int (digits_value ds), rest))"

fun parse_value :: "nat \<Rightarrow> string \<Rightarrow> (jsval \<times> string) option"
  and parse_elements :: "nat \<Rightarrow> string \<Rightarrow> (jsval list \<times> string) option"
  and parse_members :: "nat \<Rightarrow> string \<Rightarrow> ((string \<times> jsval) list \<times> string) option" where
  "parse_value 0 cs = None"
| "parse_value (Suc n) cs =
     (case skip_ws cs of
        [] \<Rightarrow> None
      | c # r \<Rightarrow>
          if c = CHR ''['' then
            (case skip_ws r of
               [] \<Rightarrow> None
             | d # r1 \<Rightarrow>
                 if d = CHR '']'' then Some (JArr [], r1)
                 else map_option (\<lambda>(xs, r2). (JArr xs, r2)) (parse_elements n r))
          else if c = CHR ''{'' then
            (case skip_ws r of
               [] \<Rightarrow> None
             | d # r1 \<Rightarrow>
                 if d = CHR ''}'' then Some (JObj [], r1)
                 else map_option (\<lambda>(ms, r2). (JObj (foldl (\<lambda>acc (k, v). AList.update k v acc) [] ms), r2))
                        (parse_members n r))
          else if c = dquote then map_option (\<lambda>(s, r1). (JStr s, r1)) (parse_string_chars r)
          else if startsWith (c # r) ''null'' then Some (JNull, drop 4 (c # r))
          else if startsWith (c # r) ''true'' then Some (JBool True, drop 4 (c # r))
          else if startsWith (c # r) ''false'' then Some (JBool False, drop 5 (c # r))
          else map_option (\<lambda>(i, r1). (JNum i, r1)) (parse_number (c # r)))"
| "parse_elements 0 cs = None"
| "parse_elements (Suc n) cs =
     (case parse_value n cs of
        None \<Rightarrow> None
      | Some (v, r) \<Rightarrow>
          (case skip_ws r of
             [] \<Rightarrow> None
           | d # r1 \<Rightarrow>
               if d = CHR '','' then map_option (\<lambda>(vs, r2). (v # vs, r2)) (parse_elements n r1)
               else if d = CHR '']'' then Some ([v], r1)
               else None))"
| "parse_members 0 cs = None"
| "parse_members (Suc n) cs =
     (case skip_ws cs of
        [] \<Rightarrow> None
      | q # r \<Rightarrow>
          if q \<noteq> dquote then None
          else
            (case parse_string_chars r of
               None \<Rightarrow> None
             | Some (k, r1) \<Rightarrow>
                 (case skip_ws r1 of
                    [] \<Rightarrow> None
                  | c # r2 \<Rightarrow>
                      if c \<noteq> CHR '':'' then None
                      else
                        (case parse_value n r2 of
                           None \<Rightarrow> None
                         | Some (v, r3) \<Rightarrow>
                             (case skip_ws r3 of
                                [] \<Rightarrow> None
                              | d # r4 \<Rightarrow>
                                  if d = CHR '','' then
                                    map_option (\<lambda>(ms, r5). ((k, v) # ms, r5)) (parse_members n r4)
                                  else if d = CHR ''}'' then Some ([(k, v)], r4)
                                  else None)))))"

definition JSON_parse_text :: "string \<Rightarrow> jsval option" where
  "JSON_parse_text text =
     (case parse_value (Suc (length text)) text of
        None \<Rightarrow> None
      | Some (v, rest) \<Rightarrow> if skip_ws rest = [] then Some v else None)"

text \<open>
  The reviver walk of \<open>JSON.parse(text, reviver)\<close>: the elements or members of a
  value first, in order, then the value itself; a member that the reviver maps to
  \<open>undefined\<close> is deleted. The reviver is given the property name and the value.
\<close>

fun InternalizeJSONProperty :: "(string \<Rightarrow> jsval \<Rightarrow> jsval) \<Rightarrow> string \<Rightarrow> jsval \<Rightarrow> jsval"
  and internalize_elements :: "(string \<Rightarrow> jsval \<Rightarrow> jsval) \<Rightarrow> nat \<Rightarrow> jsval list \<Rightarrow> jsval list"
  and internalize_members :: "(string \<Rightarrow> jsval \<Rightarrow> jsval) \<Rightarrow> (string \<times> jsval) list \<Rightarrow> (string \<times> jsval) list" where
  "InternalizeJSONProperty reviver name (JArr xs) = reviver name (JArr (internalize_elements reviver 0 xs))"
| "InternalizeJSONProperty reviver name (JObj ms) = reviver name (JObj (internalize_members reviver ms))"
| "InternalizeJSONProperty reviver name v = reviver name v"
| "internalize_elements reviver i [] = []"
| "internalize_elements reviver i (x # xs) =
     InternalizeJSONProperty reviver (show_nat i) x # internalize_elements reviver (Suc i) xs"
| "internalize_members reviver [] = []"
| "internalize_members reviver ((k, v) # ms) =
     (case InternalizeJSONProperty reviver k v of
        JUndefined \<Rightarrow> internalize_members reviver ms
      | v' \<Rightarrow> (k, v') # internalize_members reviver ms)"

definition JSON_parse :: "string \<Rightarrow> (string \<Rightarrow> jsval \<Rightarrow> jsval) \<Rightarrow> error + jsval" where
  "JSON_parse text reviver =
     (case JSON_parse_text text of
        None \<Rightarrow> Inl (CodecError ''SyntaxError'')
      | Some v \<Rightarrow> Inr (InternalizeJSONProperty reviver [] v))"


section \<open>The default codec\<close>

text \<open>
  Two versions of \<open>serialization.ts\<close> are in the repository. Both begin alike:
  \<open>undefined\<close> and \<open>null\<close> give \<open>"null"\<close>, a string is escaped with one more
  \<open>:\<close> when it starts with \<open>:\<close>, a \<open>Buffer\<close> becomes the string \<open>:base64:<data>\<close>.
  \<open>defaultSerialize\<close> then hands every other value to \<open>JSON.stringify\<close> as it is;
  \<open>defaultSerialize_recursive\<close> walks arrays and objects itself, calling itself on each
  element, and on each property name and property value. \<open>defaultDeserialize\<close> is the
  same in both: \<open>JSON.parse\<close> with a reviver that decodes or unescapes every string
  it meets.
\<close>

definition escape_marker :: "string \<Rightarrow> string" where
  "escape_marker s = (if startsWith s '':'' then '':'' @ s else s)"

definition defaultSerialize :: "jsval \<Rightarrow> string" where
  "defaultSerialize v =
     (case v of
        JUndefined \<Rightarrow> ''null''
      | JNull \<Rightarrow> ''null''
      | JStr s \<Rightarrow> JSON_stringify (JStr (escape_marker s))
      | JBuf bs \<Rightarrow> JSON_stringify (JStr ('':base64:'' @ toBase64 bs))
      | _ \<Rightarrow> JSON_stringify v)"

fun defaultSerialize_recursive :: "jsval \<Rightarrow> string"
  and serialize_array_items :: "jsval list \<Rightarrow> string list"
  and serialize_object_items :: "(string \<times> jsval) list \<Rightarrow> string list" where
  "defaultSerialize_recursive JUndefined = ''null''"
| "defaultSerialize_recursive JNull = ''null''"
| "defaultSerialize_recursive (JStr s) = JSON_stringify (JStr (escape_marker s))"
| "defaultSerialize_recursive (JBuf bs) = JSON_stringify (JStr ('':base64:'' @ toBase64 bs))"
| "defaultSerialize_recursive (JArr xs) = ''['' @ join '','' (serialize_array_items xs) @ '']''"
| "defaultSerialize_recursive (JObj ms) = ''{'' @ join '','' (serialize_object_items ms) @ ''}''"
| "defaultSerialize_recursive (JBool b) = JSON_stringify (JBool b)"
| "defaultSerialize_recursive (JNum n) = JSON_stringify (JNum n)"
| "serialize_array_items [] = []"
| "serialize_array_items (x # xs) = defaultSerialize_recursive x # serialize_array_items xs"
| "serialize_object_items [] = []"
| "serialize_object_items ((key, v) # ms) =
     (if v = JUndefined then serialize_object_items ms
      else (JSON_stringify (JStr (escape_marker key)) @ '':'' @ defaultSerialize_recursive v)
             # serialize_object_items ms)"

definition reviver :: "string \<Rightarrow> jsval \<Rightarrow> jsval" where
  "reviver name v =
     (case v of
        JStr s \<Rightarrow>
          if startsWith s '':base64:'' then JBuf (fromBase64 (drop 8 s))
          else if startsWith s '':'' then JStr (drop 1 s)
          else v
      | _ \<Rightarrow> v)"

definition defaultDeserialize :: "string \<Rightarrow> error + jsval" where
  "defaultDeserialize data = JSON_parse data reviver"


section \<open>Data model of the in-memory storage engine\<close>

text \<open>
  The adapters keep a JavaScript \<open>Map<string, StorageEntry>\<close>. A \<open>Map\<close> enumerates in
  insertion order, \<open>Map.set\<close> on a present key replaces the value in place and on a new
  key appends, \<open>Map.delete\<close> removes the key. The model is an association list in
  insertion order: \<open>map_of\<close> is \<open>Map.get\<close>, \<open>AList.update\<close> is \<open>Map.set\<close>,
  \<open>AList.delete\<close> is \<open>Map.delete\<close>, \<open>length\<close> is \<open>Map.size\<close>. The keys of a
  \<open>Map\<close> are distinct; the theorems that depend on it say so.

  Timestamps (\<open>Date.now()\<close>) and TTLs are integer milliseconds, modelled as \<open>int\<close>.
  Each operation takes the reading of \<open>Date.now()\<close> it makes as its first argument.
  An optional field or parameter (\<open>expires?: number\<close>, \<open>ttl?: number\<close>) is an
  \<open>option\<close>, with \<open>None\<close> for \<open>undefined\<close>. The operations are \<open>async\<close> but never
  suspend before they return, so each is one atomic step on the adapter's state.
\<close>

record StorageEntry =
  entry_value :: string          \<comment> \<open>field \<open>value\<close>: always serialized\<close>
  expires :: "int option"        \<comment> \<open>absolute timestamp, \<open>Date.now() + ttl\<close>\<close>

record MemoryStats =
  hits :: nat
  misses :: nat
  sets :: nat
  deletes :: nat
  expired :: nat
  keys :: nat
  memory :: nat

record 'v SerializationAdapter =
  serialize :: "'v \<Rightarrow> error + string"
  deserialize :: "string \<Rightarrow> error + 'v"

record 'v MemoryAdapterConfig =
  defaultTTL :: int
  maxKeys :: int
  cleanupInterval :: int
  serialization :: "'v SerializationAdapter"

record 'v MemoryAdapter =
  store :: "(string \<times> StorageEntry) list"
  cleanupTimer :: bool           \<comment> \<open>whether an interval timer is installed\<close>
  stats :: MemoryStats
  options :: "'v MemoryAdapterConfig"

text \<open>The codecs the repository ships: the default one, and the identity on strings.\<close>

definition defaultSerialization :: "jsval SerializationAdapter" where
  "defaultSerialization =
     \<lparr>serialize = (\<lambda>v. Inr (defaultSerialize v)), deserialize = defaultDeserialize\<rparr>"

definition identitySerializer :: "string SerializationAdapter" where
  "identitySerializer = \<lparr>serialize = (\<lambda>v. Inr v), deserialize = (\<lambda>data. Inr data)\<rparr>"

text \<open>
  The test every adapter makes before serving or sweeping an entry,
  \<^verbatim>\<open>entry.expires && now > entry.expires\<close>. The left operand is a truthiness test:
  it is false for \<open>undefined\<close> and also for the number \<open>0\<close>.
\<close>

definition ttl_expired :: "int \<Rightarrow> StorageEntry \<Rightarrow> bool" where
  "ttl_expired now entry =
     (case expires entry of None \<Rightarrow> False | Some e \<Rightarrow> e \<noteq> 0 \<and> now > e)"

text \<open>
  What the specification calls an entry whose expiry timestamp has passed: it has one,
  and the clock is beyond it. Used only to state claims.
\<close>

definition expiry_passed :: "int \<Rightarrow> StorageEntry \<Rightarrow> bool" where
  "expiry_passed now entry =
     (case expires entry of None \<Rightarrow> False | Some e \<Rightarrow> now > e)"

text \<open>
  \<^verbatim>\<open>ttl ?? (this.options.defaultTTL || undefined)\<close> and
  \<^verbatim>\<open>effectiveTTL ? Date.now() + effectiveTTL : undefined\<close>: \<open>??\<close> falls through on
  \<open>undefined\<close> only, \<open>||\<close> and \<open>?:\<close> on every falsy number, that is on \<open>0\<close>.
\<close>

definition effectiveTTL :: "int \<Rightarrow> int option \<Rightarrow> int option" where
  "effectiveTTL dflt ttl =
     (case ttl of Some t \<Rightarrow> Some t | None \<Rightarrow> (if dflt \<noteq> 0 then Some dflt else None))"

definition expiresAt :: "int \<Rightarrow> int option \<Rightarrow> int option" where
  "expiresAt now eff =
     (case eff of None \<Rightarrow> None | Some t \<Rightarrow> (if t \<noteq> 0 then Some (now + t) else None))"

section \<open>The final MemoryAdapter\<close>

definition zeroStats :: MemoryStats where
  "zeroStats = \<lparr>hits = 0, misses = 0, sets = 0, deletes = 0, expired = 0, keys = 0, memory = 0\<rparr>"

definition getMemoryUsage :: "(string \<times> StorageEntry) list \<Rightarrow> nat" where
  "getMemoryUsage st =
     foldl (\<lambda>bytes (key, entry). bytes + length key * 2 + length (entry_value entry) * 2 + 16) 0 st"

definition updateStats :: "'v MemoryAdapter \<Rightarrow> 'v MemoryAdapter" where
  "updateStats s =
     s\<lparr>stats := (stats s)\<lparr>keys := length (store s), memory := getMemoryUsage (store s)\<rparr>\<rparr>"

definition resetStats :: "'v MemoryAdapter \<Rightarrow> 'v MemoryAdapter" where
  "resetStats s = s\<lparr>stats := zeroStats\<rparr>"

definition MemoryAdapter_new :: "'v MemoryAdapterConfig \<Rightarrow> 'v MemoryAdapter" where
  "MemoryAdapter_new config =
     \<lparr>store = [], cleanupTimer = (cleanupInterval config > 0), stats = zeroStats, options = config\<rparr>"

definition MemoryAdapter_get ::
  "int \<Rightarrow> string \<Rightarrow> 'v MemoryAdapter \<Rightarrow> (error + 'v option) \<times> 'v MemoryAdapter" where
  "MemoryAdapter_get now key s =
     (case map_of (store s) key of
        None \<Rightarrow> (Inr None, s\<lparr>stats := (stats s)\<lparr>misses := misses (stats s) + 1\<rparr>\<rparr>)
      | Some entry \<Rightarrow>
          if ttl_expired now entry then
            (Inr None,
             updateStats (s\<lparr>store := AList.delete key (store s),
                             stats := (stats s)\<lparr>expired := expired (stats s) + 1\<rparr>\<rparr>))
          else
            (let s' = s\<lparr>stats := (stats s)\<lparr>hits := hits (stats s) + 1\<rparr>\<rparr>
             in case deserialize (serialization (options s)) (entry_value entry) of
                  Inl e \<Rightarrow> (Inl e, s')
                | Inr v \<Rightarrow> (Inr (Some v), s')))"

definition MemoryAdapter_set ::
  "int \<Rightarrow> string \<Rightarrow> 'v \<Rightarrow> int option \<Rightarrow> 'v MemoryAdapter \<Rightarrow> (error + unit) \<times> 'v MemoryAdapter" where
  "MemoryAdapter_set now key v ttl s =
     (if key \<notin> fst ` set (store s) \<and> int (length (store s)) \<ge> maxKeys (options s) then
        (Inl (MaxKeysLimit (maxKeys (options s))), s)
      else
        (let exp = expiresAt now (effectiveTTL (defaultTTL (options s)) ttl)
         in case serialize (serialization (options s)) v of
              Inl e \<Rightarrow> (Inl e, s)
            | Inr serialized \<Rightarrow>
                (Inr (),
                 updateStats (s\<lparr>store := AList.update key \<lparr>entry_value = serialized, expires = exp\<rparr> (store s),
                                 stats := (stats s)\<lparr>sets := sets (stats s) + 1\<rparr>\<rparr>))))"

definition MemoryAdapter_delete :: "string \<Rightarrow> 'v MemoryAdapter \<Rightarrow> bool \<times> 'v MemoryAdapter" where
  "MemoryAdapter_delete key s =
     (if key \<in> fst ` set (store s) then
        (True, updateStats (s\<lparr>store := AList.delete key (store s),
                               stats := (stats s)\<lparr>deletes := deletes (stats s) + 1\<rparr>\<rparr>))
      else (False, s))"

definition MemoryAdapter_exists :: "int \<Rightarrow> string \<Rightarrow> 'v MemoryAdapter \<Rightarrow> bool \<times> 'v MemoryAdapter" where
  "MemoryAdapter_exists now key s =
     (case map_of (store s) key of
        None \<Rightarrow> (False, s)
      | Some entry \<Rightarrow>
          if ttl_expired now entry then
            (False,
             updateStats (s\<lparr>store := AList.delete key (store s),
                             stats := (stats s)\<lparr>expired := expired (stats s) + 1\<rparr>\<rparr>))
          else (True, s))"

definition MemoryAdapter_clear :: "'v MemoryAdapter \<Rightarrow> 'v MemoryAdapter" where
  "MemoryAdapter_clear s = resetStats (s\<lparr>store := []\<rparr>)"

text \<open>
  The batch operations read the clock once per element: \<open>clk i\<close> is the reading of
  \<open>Date.now()\<close> made for the element at position \<open>i\<close> of the batch.
  \<open>mget\<close> starts every \<open>get\<close>, in order, and rejects with the first error among them.
  \<open>mset\<close> awaits one \<open>set\<close> per pair, in order; a rejected \<open>set\<close> leaves the loop.
\<close>

fun mget_loop ::
  "(nat \<Rightarrow> int) \<Rightarrow> nat \<Rightarrow> string list \<Rightarrow> 'v MemoryAdapter
     \<Rightarrow> (error + 'v option) list \<times> 'v MemoryAdapter" where
  "mget_loop clk i [] s = ([], s)"
| "mget_loop clk i (key # rest) s =
     (case MemoryAdapter_get (clk i) key s of
        (r, s') \<Rightarrow> (case mget_loop clk (Suc i) rest s' of (rs, s'') \<Rightarrow> (r # rs, s'')))"

fun promise_all :: "(error + 'a) list \<Rightarrow> error + 'a list" where
  "promise_all [] = Inr []"
| "promise_all (Inl e # rs) = Inl e"
| "promise_all (Inr x # rs) = (case promise_all rs of Inl e \<Rightarrow> Inl e | Inr xs \<Rightarrow> Inr (x # xs))"

definition MemoryAdapter_mget ::
  "(nat \<Rightarrow> int) \<Rightarrow> string list \<Rightarrow> 'v MemoryAdapter \<Rightarrow> (error + 'v option list) \<times> 'v MemoryAdapter" where
  "MemoryAdapter_mget clk ks s = (case mget_loop clk 0 ks s of (rs, s') \<Rightarrow> (promise_all rs, s'))"

fun mset_loop ::
  "(nat \<Rightarrow> int) \<Rightarrow> nat \<Rightarrow> (string \<times> 'v) list \<Rightarrow> int option \<Rightarrow> 'v MemoryAdapter
     \<Rightarrow> (error + unit) \<times> 'v MemoryAdapter" where
  "mset_loop clk i [] ttl s = (Inr (), s)"
| "mset_loop clk i ((key, v) # rest) ttl s =
     (case MemoryAdapter_set (clk i) key v ttl s of
        (Inl e, s') \<Rightarrow> (Inl e, s')
      | (Inr u, s') \<Rightarrow> mset_loop clk (Suc i) rest ttl s')"

definition MemoryAdapter_mset ::
  "(nat \<Rightarrow> int) \<Rightarrow> (string \<times> 'v) list \<Rightarrow> int option \<Rightarrow> 'v MemoryAdapter
     \<Rightarrow> (error + unit) \<times> 'v MemoryAdapter" where
  "MemoryAdapter_mset clk entries ttl s = mset_loop clk 0 entries ttl s"

fun deleteMany_loop :: "string list \<Rightarrow> bool \<times> 'v MemoryAdapter \<Rightarrow> bool \<times> 'v MemoryAdapter" where
  "deleteMany_loop [] acc = acc"
| "deleteMany_loop (key # rest) (deletedAny, s) =
     (case MemoryAdapter_delete key s of
        (deleted, s') \<Rightarrow> deleteMany_loop rest (if deleted then True else deletedAny, s'))"

definition MemoryAdapter_deleteMany :: "string list \<Rightarrow> 'v MemoryAdapter \<Rightarrow> bool \<times> 'v MemoryAdapter" where
  "MemoryAdapter_deleteMany ks s = deleteMany_loop ks (False, s)"

definition MemoryAdapter_isHealthy :: "'v MemoryAdapter \<Rightarrow> bool" where
  "MemoryAdapter_isHealthy s = True"

definition MemoryAdapter_getStats :: "'v MemoryAdapter \<Rightarrow> MemoryStats \<times> 'v MemoryAdapter" where
  "MemoryAdapter_getStats s = (stats (updateStats s), updateStats s)"

definition MemoryAdapter_keys :: "'v MemoryAdapter \<Rightarrow> string list" where
  "MemoryAdapter_keys s = map fst (store s)"

text \<open>
  \<open>cleanup\<close> reads the clock once and walks the entries of the map, deleting as it goes
  (deleting the entry under the iterator does not disturb a \<open>Map\<close> iteration).
\<close>

fun cleanup_loop ::
  "int \<Rightarrow> (string \<times> StorageEntry) list \<Rightarrow> 'v MemoryAdapter \<times> nat \<Rightarrow> 'v MemoryAdapter \<times> nat" where
  "cleanup_loop now [] acc = acc"
| "cleanup_loop now ((key, entry) # rest) (s, cleaned) =
     (if ttl_expired now entry then
        cleanup_loop now rest
          (s\<lparr>store := AList.delete key (store s),
             stats := (stats s)\<lparr>expired := expired (stats s) + 1\<rparr>\<rparr>, cleaned + 1)
      else cleanup_loop now rest (s, cleaned))"

definition MemoryAdapter_cleanup :: "int \<Rightarrow> 'v MemoryAdapter \<Rightarrow> nat \<times> 'v MemoryAdapter" where
  "MemoryAdapter_cleanup now s =
     (case cleanup_loop now (store s) (s, 0) of (s', cleaned) \<Rightarrow> (cleaned, updateStats s'))"

definition MemoryAdapter_destroy :: "'v MemoryAdapter \<Rightarrow> 'v MemoryAdapter" where
  "MemoryAdapter_destroy s = resetStats (s\<lparr>cleanupTimer := False, store := []\<rparr>)"

text \<open>
  The states an adapter can be in: the constructor's, and what any public operation,
  or a tick of the cleanup timer, makes of one of them.
\<close>

inductive reachable :: "'v MemoryAdapter \<Rightarrow> bool" where
  r_new: "reachable (MemoryAdapter_new config)"
| r_get: "reachable s \<Longrightarrow> reachable (snd (MemoryAdapter_get now key s))"
| r_set: "reachable s \<Longrightarrow> reachable (snd (MemoryAdapter_set now key v ttl s))"
| r_delete: "reachable s \<Longrightarrow> reachable (snd (MemoryAdapter_delete key s))"
| r_exists: "reachable s \<Longrightarrow> reachable (snd (MemoryAdapter_exists now key s))"
| r_clear: "reachable s \<Longrightarrow> reachable (MemoryAdapter_clear s)"
| r_mget: "reachable s \<Longrightarrow> reachable (snd (MemoryAdapter_mget clk ks s))"
| r_mset: "reachable s \<Longrightarrow> reachable (snd (MemoryAdapter_mset clk entries ttl s))"
| r_deleteMany: "reachable s \<Longrightarrow> reachable (snd (MemoryAdapter_deleteMany ks s))"
| r_getStats: "reachable s \<Longrightarrow> reachable (snd (MemoryAdapter_getStats s))"
| r_cleanup: "reachable s \<Longrightarrow> reachable (snd (MemoryAdapter_cleanup now s))"
| r_destroy: "reachable s \<Longrightarrow> reachable (MemoryAdapter_destroy s)"

section \<open>EnhancedMemoryAdapter\<close>

text \<open>
  The same map and the same operations, with five counters, no recomputed snapshots,
  and the two codec functions held in the options directly.
\<close>

record EnhancedStats =
  e_hits :: nat
  e_misses :: nat
  e_sets :: nat
  e_deletes :: nat
  e_expired :: nat

record 'v EnhancedMemoryAdapterConfig =
  e_maxKeys :: int
  e_defaultTTL :: int
  e_cleanupInterval :: int
  e_serialize :: "'v \<Rightarrow> error + string"
  e_deserialize :: "string \<Rightarrow> error + 'v"

record 'v EnhancedMemoryAdapter =
  e_store :: "(string \<times> StorageEntry) list"
  e_cleanupTimer :: bool
  e_stats :: EnhancedStats
  e_options :: "'v EnhancedMemoryAdapterConfig"

definition EnhancedMemoryAdapter_new :: "'v EnhancedMemoryAdapterConfig \<Rightarrow> 'v EnhancedMemoryAdapter" where
  "EnhancedMemoryAdapter_new config =
     \<lparr>e_store = [], e_cleanupTimer = (e_cleanupInterval config > 0),
      e_stats = \<lparr>e_hits = 0, e_misses = 0, e_sets = 0, e_deletes = 0, e_expired = 0\<rparr>,
      e_options = config\<rparr>"

definition EnhancedMemoryAdapter_get ::
  "int \<Rightarrow> string \<Rightarrow> 'v EnhancedMemoryAdapter \<Rightarrow> (error + 'v option) \<times> 'v EnhancedMemoryAdapter" where
  "EnhancedMemoryAdapter_get now key s =
     (case map_of (e_store s) key of
        None \<Rightarrow> (Inr None, s\<lparr>e_stats := (e_stats s)\<lparr>e_misses := e_misses (e_stats s) + 1\<rparr>\<rparr>)
      | Some entry \<Rightarrow>
          if ttl_expired now entry then
            (Inr None,
             s\<lparr>e_store := AList.delete key (e_store s),
               e_stats := (e_stats s)\<lparr>e_expired := e_expired (e_stats s) + 1\<rparr>\<rparr>)
          else
            (let s' = s\<lparr>e_stats := (e_stats s)\<lparr>e_hits := e_hits (e_stats s) + 1\<rparr>\<rparr>
             in case e_deserialize (e_options s) (entry_value entry) of
                  Inl e \<Rightarrow> (Inl e, s')
                | Inr v \<Rightarrow> (Inr (Some v), s')))"

definition EnhancedMemoryAdapter_set ::
  "int \<Rightarrow> string \<Rightarrow> 'v \<Rightarrow> int option \<Rightarrow> 'v EnhancedMemoryAdapter
     \<Rightarrow> (error + unit) \<times> 'v EnhancedMemoryAdapter" where
  "EnhancedMemoryAdapter_set now key v ttl s =
     (if key \<notin> fst ` set (e_store s) \<and> int (length (e_store s)) \<ge> e_maxKeys (e_options s) then
        (Inl (MaxKeysLimit (e_maxKeys (e_options s))), s)
      else
        (let exp = expiresAt now (effectiveTTL (e_defaultTTL (e_options s)) ttl)
         in case e_serialize (e_options s) v of
              Inl e \<Rightarrow> (Inl e, s)
            | Inr serialized \<Rightarrow>
                (Inr (),
                 s\<lparr>e_store := AList.update key \<lparr>entry_value = serialized, expires = exp\<rparr> (e_store s),
                   e_stats := (e_stats s)\<lparr>e_sets := e_sets (e_stats s) + 1\<rparr>\<rparr>)))"

definition EnhancedMemoryAdapter_keys :: "'v EnhancedMemoryAdapter \<Rightarrow> string list" where
  "EnhancedMemoryAdapter_keys s = map fst (e_store s)"

fun enhanced_cleanup_loop ::
  "int \<Rightarrow> (string \<times> StorageEntry) list \<Rightarrow> 'v EnhancedMemoryAdapter \<times> nat
     \<Rightarrow> 'v EnhancedMemoryAdapter \<times> nat" where
  "enhanced_cleanup_loop now [] acc = acc"
| "enhanced_cleanup_loop now ((key, entry) # rest) (s, cleaned) =
     (if ttl_expired now entry then
        enhanced_cleanup_loop now rest
          (s\<lparr>e_store := AList.delete key (e_store s),
             e_stats := (e_stats s)\<lparr>e_expired := e_expired (e_stats s) + 1\<rparr>\<rparr>, cleaned + 1)
      else enhanced_cleanup_loop now rest (s, cleaned))"

definition EnhancedMemoryAdapter_cleanup ::
  "int \<Rightarrow> 'v EnhancedMemoryAdapter \<Rightarrow> nat \<times> 'v EnhancedMemoryAdapter" where
  "EnhancedMemoryAdapter_cleanup now s =
     (case enhanced_cleanup_loop now (e_store s) (s, 0) of (s', cleaned) \<Rightarrow> (cleaned, s'))"

definition EnhancedMemoryAdapter_delete ::
  "string \<Rightarrow> 'v EnhancedMemoryAdapter \<Rightarrow> bool \<times> 'v EnhancedMemoryAdapter" where
  "EnhancedMemoryAdapter_delete key s =
     (if key \<in> fst ` set (e_store s) then
        (True, s\<lparr>e_store := AList.delete key (e_store s),
                  e_stats := (e_stats s)\<lparr>e_deletes := e_deletes (e_stats s) + 1\<rparr>\<rparr>)
      else (False, s))"

definition EnhancedMemoryAdapter_exists ::
  "int \<Rightarrow> string \<Rightarrow> 'v EnhancedMemoryAdapter \<Rightarrow> bool \<times> 'v EnhancedMemoryAdapter" where
  "EnhancedMemoryAdapter_exists now key s =
     (case map_of (e_store s) key of
        None \<Rightarrow> (False, s)
      | Some entry \<Rightarrow>
          if ttl_expired now entry then
            (False,
             s\<lparr>e_store := AList.delete key (e_store s),
               e_stats := (e_stats s)\<lparr>e_expired := e_expired (e_stats s) + 1\<rparr>\<rparr>)
          else (True, s))"

definition EnhancedMemoryAdapter_clear :: "'v EnhancedMemoryAdapter \<Rightarrow> 'v EnhancedMemoryAdapter" where
  "EnhancedMemoryAdapter_clear s =
     s\<lparr>e_store := [],
       e_stats := \<lparr>e_hits = 0, e_misses = 0, e_sets = 0, e_deletes = 0, e_expired = 0\<rparr>\<rparr>"

fun enhanced_mget_loop ::
  "(nat \<Rightarrow> int) \<Rightarrow> nat \<Rightarrow> string list \<Rightarrow> 'v EnhancedMemoryAdapter
     \<Rightarrow> (error + 'v option) list \<times> 'v EnhancedMemoryAdapter" where
  "enhanced_mget_loop clk i [] s = ([], s)"
| "enhanced_mget_loop clk i (key # rest) s =
     (case EnhancedMemoryAdapter_get (clk i) key s of
        (r, s') \<Rightarrow> (case enhanced_mget_loop clk (Suc i) rest s' of (rs, s'') \<Rightarrow> (r # rs, s'')))"

definition EnhancedMemoryAdapter_mget ::
  "(nat \<Rightarrow> int) \<Rightarrow> string list \<Rightarrow> 'v EnhancedMemoryAdapter
     \<Rightarrow> (error + 'v option list) \<times> 'v EnhancedMemoryAdapter" where
  "EnhancedMemoryAdapter_mget clk ks s =
     (case enhanced_mget_loop clk 0 ks s of (rs, s') \<Rightarrow> (promise_all rs, s'))"

fun enhanced_mset_loop ::
  "(nat \<Rightarrow> int) \<Rightarrow> nat \<Rightarrow> (string \<times> 'v) list \<Rightarrow> int option \<Rightarrow> 'v EnhancedMemoryAdapter
     \<Rightarrow> (error + unit) \<times> 'v EnhancedMemoryAdapter" where
  "enhanced_mset_loop clk i [] ttl s = (Inr (), s)"
| "enhanced_mset_loop clk i ((key, v) # rest) ttl s =
     (case EnhancedMemoryAdapter_set (clk i) key v ttl s of
        (Inl e, s') \<Rightarrow> (Inl e, s')
      | (Inr u, s') \<Rightarrow> enhanced_mset_loop clk (Suc i) rest ttl s')"

definition EnhancedMemoryAdapter_mset ::
  "(nat \<Rightarrow> int) \<Rightarrow> (string \<times> 'v) list \<Rightarrow> int option \<Rightarrow> 'v EnhancedMemoryAdapter
     \<Rightarrow> (error + unit) \<times> 'v EnhancedMemoryAdapter" where
  "EnhancedMemoryAdapter_mset clk entries ttl s = enhanced_mset_loop clk 0 entries ttl s"

fun enhanced_deleteMany_loop ::
  "string list \<Rightarrow> bool \<times> 'v EnhancedMemoryAdapter \<Rightarrow> bool \<times> 'v EnhancedMemoryAdapter" where
  "enhanced_deleteMany_loop [] acc = acc"
| "enhanced_deleteMany_loop (key # rest) (deletedAny, s) =
     (case EnhancedMemoryAdapter_delete key s of
        (deleted, s') \<Rightarrow> enhanced_deleteMany_loop rest (if deleted then True else deletedAny, s'))"

definition EnhancedMemoryAdapter_deleteMany ::
  "string list \<Rightarrow> 'v EnhancedMemoryAdapter \<Rightarrow> bool \<times> 'v EnhancedMemoryAdapter" where
  "EnhancedMemoryAdapter_deleteMany ks s = enhanced_deleteMany_loop ks (False, s)"

definition EnhancedMemoryAdapter_destroy :: "'v EnhancedMemoryAdapter \<Rightarrow> 'v EnhancedMemoryAdapter" where
  "EnhancedMemoryAdapter_destroy s = s\<lparr>e_cleanupTimer := False, e_store := []\<rparr>"

text \<open>
  The states an \<open>EnhancedMemoryAdapter\<close> can be in: the constructor's, and what any
  public operation that writes, or a tick of the cleanup timer, makes of one of them
  (\<open>getStats\<close>, \<open>keys\<close> and \<open>isHealthy\<close> only read).
\<close>

inductive enhanced_reachable :: "'v EnhancedMemoryAdapter \<Rightarrow> bool" where
  er_new: "enhanced_reachable (EnhancedMemoryAdapter_new config)"
| er_get: "enhanced_reachable s \<Longrightarrow> enhanced_reachable (snd (EnhancedMemoryAdapter_get now key s))"
| er_set: "enhanced_reachable s \<Longrightarrow> enhanced_reachable (snd (EnhancedMemoryAdapter_set now key v ttl s))"
| er_delete: "enhanced_reachable s \<Longrightarrow> enhanced_reachable (snd (EnhancedMemoryAdapter_delete key s))"
| er_exists: "enhanced_reachable s \<Longrightarrow> enhanced_reachable (snd (EnhancedMemoryAdapter_exists now key s))"
| er_clear: "enhanced_reachable s \<Longrightarrow> enhanced_reachable (EnhancedMemoryAdapter_clear s)"
| er_mget: "enhanced_reachable s \<Longrightarrow> enhanced_reachable (snd (EnhancedMemoryAdapter_mget clk ks s))"
| er_mset: "enhanced_reachable s \<Longrightarrow> enhanced_reachable (snd (EnhancedMemoryAdapter_mset clk entries ttl s))"
| er_deleteMany: "enhanced_reachable s \<Longrightarrow> enhanced_reachable (snd (EnhancedMemoryAdapter_deleteMany ks s))"
| er_cleanup: "enhanced_reachable s \<Longrightarrow> enhanced_reachable (snd (EnhancedMemoryAdapter_cleanup now s))"
| er_destroy: "enhanced_reachable s \<Longrightarrow> enhanced_reachable (EnhancedMemoryAdapter_destroy s)"

section \<open>The event-emitting MemoryAdapter\<close>

text \<open>
  The earlier adapter of \<open>memory-basic.adapter.ts\<close>. It counts errors, keeps no memory
  snapshot, and reports what it does to an event emitter. The emitter hands each event
  to the subscribed observers and swallows what they throw; the model keeps the sequence
  of emitted events. The clock readings of one call are taken to be equal.
\<close>

datatype event_type = EvSet | EvGet | EvDelete | EvClear | EvExpired | EvError

record 'v KVEvent =
  ev_type :: event_type
  ev_key :: "string option"
  ev_value :: "'v option"
  ev_ttl :: "int option"
  ev_error :: "error option"
  ev_timestamp :: int

record KVStats =
  b_hits :: nat
  b_misses :: nat
  b_sets :: nat
  b_deletes :: nat
  b_expired :: nat
  b_errors :: nat
  b_keys :: nat

record 'v BasicAdapterConfig =
  b_defaultTTL :: int
  b_maxKeys :: int
  b_emitEvents :: bool
  b_cleanupInterval :: int
  b_serialization :: "'v SerializationAdapter"

record 'v BasicMemoryAdapter =
  b_store :: "(string \<times> StorageEntry) list"
  b_adapterConfig :: "'v BasicAdapterConfig"
  b_events :: "'v KVEvent list"     \<comment> \<open>the events emitted so far, oldest first\<close>
  b_stats :: KVStats
  b_cleanupTimer :: bool

definition BasicMemoryAdapter_new :: "'v BasicAdapterConfig \<Rightarrow> 'v BasicMemoryAdapter" where
  "BasicMemoryAdapter_new config =
     \<lparr>b_store = [], b_adapterConfig = config, b_events = [],
      b_stats = \<lparr>b_hits = 0, b_misses = 0, b_sets = 0, b_deletes = 0, b_expired = 0,
                 b_errors = 0, b_keys = 0\<rparr>,
      b_cleanupTimer = (b_cleanupInterval config > 0)\<rparr>"

definition emitEvent :: "'v KVEvent \<Rightarrow> 'v BasicMemoryAdapter \<Rightarrow> 'v BasicMemoryAdapter" where
  "emitEvent ev s =
     (if b_emitEvents (b_adapterConfig s) then s\<lparr>b_events := b_events s @ [ev]\<rparr> else s)"

definition emitError :: "int \<Rightarrow> string option \<Rightarrow> error \<Rightarrow> 'v BasicMemoryAdapter \<Rightarrow> 'v BasicMemoryAdapter" where
  "emitError now key err s =
     emitEvent \<lparr>ev_type = EvError, ev_key = key, ev_value = None, ev_ttl = None,
                ev_error = Some err, ev_timestamp = now\<rparr> s"

definition updateKeysCount :: "'v BasicMemoryAdapter \<Rightarrow> 'v BasicMemoryAdapter" where
  "updateKeysCount s = s\<lparr>b_stats := (b_stats s)\<lparr>b_keys := length (b_store s)\<rparr>\<rparr>"

definition BasicMemoryAdapter_get ::
  "int \<Rightarrow> string \<Rightarrow> 'v BasicMemoryAdapter \<Rightarrow> (error + 'v option) \<times> 'v BasicMemoryAdapter" where
  "BasicMemoryAdapter_get now key s =
     (case map_of (b_store s) key of
        None \<Rightarrow>
          (Inr None,
           emitEvent \<lparr>ev_type = EvGet, ev_key = Some key, ev_value = None, ev_ttl = None,
                      ev_error = None, ev_timestamp = now\<rparr>
             (s\<lparr>b_stats := (b_stats s)\<lparr>b_misses := b_misses (b_stats s) + 1\<rparr>\<rparr>))
      | Some entry \<Rightarrow>
          if ttl_expired now entry then
            (Inr None,
             emitEvent \<lparr>ev_type = EvExpired, ev_key = Some key, ev_value = None, ev_ttl = None,
                        ev_error = None, ev_timestamp = now\<rparr>
               (updateKeysCount
                  (s\<lparr>b_store := AList.delete key (b_store s),
                     b_stats := (b_stats s)\<lparr>b_expired := b_expired (b_stats s) + 1\<rparr>\<rparr>)))
          else
            (let s' = s\<lparr>b_stats := (b_stats s)\<lparr>b_hits := b_hits (b_stats s) + 1\<rparr>\<rparr>
             in case deserialize (b_serialization (b_adapterConfig s)) (entry_value entry) of
                  Inl e \<Rightarrow>
                    (Inl e,
                     emitError now (Some key) e
                       (s'\<lparr>b_stats := (b_stats s')\<lparr>b_errors := b_errors (b_stats s') + 1\<rparr>\<rparr>))
                | Inr v \<Rightarrow>
                    (Inr (Some v),
                     emitEvent \<lparr>ev_type = EvGet, ev_key = Some key, ev_value = Some v,
                                ev_ttl = None, ev_error = None, ev_timestamp = now\<rparr> s')))"

text \<open>
  \<open>set\<close> of this adapter asks for a positive effective TTL:
  \<^verbatim>\<open>effectiveTTL && effectiveTTL > 0 ? Date.now() + effectiveTTL : undefined\<close>. What is
  thrown inside its \<open>try\<close> block is counted and announced; the capacity error is
  announced twice, once where it is thrown and once in the \<open>catch\<close>.
\<close>

definition BasicMemoryAdapter_set ::
  "int \<Rightarrow> string \<Rightarrow> 'v \<Rightarrow> int option \<Rightarrow> 'v BasicMemoryAdapter
     \<Rightarrow> (error + unit) \<times> 'v BasicMemoryAdapter" where
  "BasicMemoryAdapter_set now key v ttl s =
     (let failed = (\<lambda>e s0. emitError now (Some key) e
                       (s0\<lparr>b_stats := (b_stats s0)\<lparr>b_errors := b_errors (b_stats s0) + 1\<rparr>\<rparr>))
      in if key \<notin> fst ` set (b_store s) \<and> int (length (b_store s)) \<ge> b_maxKeys (b_adapterConfig s) then
           (let e = MaxKeysLimit (b_maxKeys (b_adapterConfig s))
            in (Inl e, failed e (emitError now (Some key) e s)))
         else
           (let eff = effectiveTTL (b_defaultTTL (b_adapterConfig s)) ttl;
                exp = (case eff of None \<Rightarrow> None | Some t \<Rightarrow> if t \<noteq> 0 \<and> t > 0 then Some (now + t) else None)
            in case serialize (b_serialization (b_adapterConfig s)) v of
                 Inl e \<Rightarrow> (Inl e, failed e s)
               | Inr serialized \<Rightarrow>
                   (Inr (),
                    emitEvent \<lparr>ev_type = EvSet, ev_key = Some key, ev_value = Some v, ev_ttl = eff,
                               ev_error = None, ev_timestamp = now\<rparr>
                      (updateKeysCount
                         (s\<lparr>b_store := AList.update key \<lparr>entry_value = serialized, expires = exp\<rparr> (b_store s),
                            b_stats := (b_stats s)\<lparr>b_sets := b_sets (b_stats s) + 1\<rparr>\<rparr>)))))"

fun basic_cleanup_loop ::
  "int \<Rightarrow> (string \<times> StorageEntry) list \<Rightarrow> 'v BasicMemoryAdapter \<times> nat
     \<Rightarrow> 'v BasicMemoryAdapter \<times> nat" where
  "basic_cleanup_loop now [] acc = acc"
| "basic_cleanup_loop now ((key, entry) # rest) (s, cleaned) =
     (if ttl_expired now entry then
        basic_cleanup_loop now rest
          (emitEvent \<lparr>ev_type = EvExpired, ev_key = Some key, ev_value = None, ev_ttl = None,
                      ev_error = None, ev_timestamp = now\<rparr>
             (s\<lparr>b_store := AList.delete key (b_store s),
                b_stats := (b_stats s)\<lparr>b_expired := b_expired (b_stats s) + 1\<rparr>\<rparr>),
           cleaned + 1)
      else basic_cleanup_loop now rest (s, cleaned))"

definition BasicMemoryAdapter_cleanup :: "int \<Rightarrow> 'v BasicMemoryAdapter \<Rightarrow> nat \<times> 'v BasicMemoryAdapter" where
  "BasicMemoryAdapter_cleanup now s =
     (case basic_cleanup_loop now (b_store s) (s, 0) of (s', cleaned) \<Rightarrow> (cleaned, updateKeysCount s'))"

text \<open>\<open>keys()\<close> of this adapter cleans expired keys first, then lists the map.\<close>

definition BasicMemoryAdapter_keys :: "int \<Rightarrow> 'v BasicMemoryAdapter \<Rightarrow> string list \<times> 'v BasicMemoryAdapter" where
  "BasicMemoryAdapter_keys now s =
     (case BasicMemoryAdapter_cleanup now s of (cleaned, s') \<Rightarrow> (map fst (b_store s'), s'))"

section \<open>The facade's set\<close>

text \<open>
  \<open>KeyValue.set\<close> validates the key and the value, prefixes the key with the
  namespace, chooses \<^verbatim>\<open>ttl ?? this.props.defaultTTL\<close> and calls the adapter; what the
  adapter throws is wrapped. The adapter here is the final \<open>MemoryAdapter\<close>.
\<close>

record KeyValueProps =
  adapter :: "jsval MemoryAdapter"
  description :: string
  kv_defaultTTL :: "int option"
  namespace :: string



section \<open>Predicates used to state the properties\<close>

text \<open>
  The capacity bound as it holds in every state: an empty map, or at most \<open>maxKeys\<close>
  entries (\<open>maxKeys\<close> may be configured negative, and then nothing is ever stored).
\<close>

definition within_capacity :: "'v MemoryAdapter \<Rightarrow> bool" where
  "within_capacity s = (store s = [] \<or> int (length (store s)) \<le> maxKeys (options s))"

text \<open>The capacity bound together with the distinctness of the keys of a \<open>Map\<close>.\<close>

definition store_ok :: "'v MemoryAdapter \<Rightarrow> bool" where
  "store_ok s = (within_capacity s \<and> distinct (map fst (store s)))"

text \<open>The capacity bound of \<open>EnhancedMemoryAdapter\<close>.\<close>

definition enhanced_within_capacity :: "'v EnhancedMemoryAdapter \<Rightarrow> bool" where
  "enhanced_within_capacity t =
     (e_store t = [] \<or> int (length (e_store t)) \<le> e_maxKeys (e_options t))"



section \<open>Example adapters\<close>

text \<open>
  Small adapters over strings with the identity codec, room for two keys, no default TTL
  and no cleanup timer, on which the properties are run.
\<close>

definition demo_config :: "string MemoryAdapterConfig" where
  "demo_config = \<lparr>defaultTTL = 0, maxKeys = 2, cleanupInterval = 0, serialization = identitySerializer\<rparr>"

definition demo_empty :: "string MemoryAdapter" where
  "demo_empty = MemoryAdapter_new demo_config"

text \<open>\<open>set("a", "1")\<close> at time 0, then \<open>set("b", "2")\<close> at time 1: the adapter is full.\<close>

definition demo_full :: "string MemoryAdapter" where
  "demo_full =
     snd (MemoryAdapter_set 1 ''b'' ''2'' None (snd (MemoryAdapter_set 0 ''a'' ''1'' None demo_empty)))"

text \<open>
  The scenario of the repository's test of \<open>keys()\<close>: \<open>set("key1", "value1")\<close>, then
  \<open>set("temp", "value", 50)\<close>, both at time 1000; the clock then moves to 1100.
\<close>

definition demo_temp :: "string MemoryAdapter" where
  "demo_temp =
     snd (MemoryAdapter_set 1000 ''temp'' ''value'' (Some 50)
            (snd (MemoryAdapter_set 1000 ''key1'' ''value1'' None demo_empty)))"

text \<open>\<open>set("k", "v", -1000)\<close> at time 1000, and \<open>set("k", "v", -1)\<close> at time 1000.\<close>

definition demo_epoch :: "string MemoryAdapter" where
  "demo_epoch = snd (MemoryAdapter_set 1000 ''k'' ''v'' (Some (- 1000)) demo_empty)"


definition demo_enhanced_config :: "string EnhancedMemoryAdapterConfig" where
  "demo_enhanced_config =
     \<lparr>e_maxKeys = 2, e_defaultTTL = 0, e_cleanupInterval = 0,
      e_serialize = (\<lambda>v. Inr v), e_deserialize = (\<lambda>data. Inr data)\<rparr>"

definition demo_enhanced_temp :: "string EnhancedMemoryAdapter" where
  "demo_enhanced_temp =
     snd (EnhancedMemoryAdapter_set 1000 ''temp'' ''value'' (Some 50)
            (snd (EnhancedMemoryAdapter_set 1000 ''key1'' ''value1'' None
                    (EnhancedMemoryAdapter_new demo_enhanced_config))))"

definition demo_enhanced_full :: "string EnhancedMemoryAdapter" where
  "demo_enhanced_full =
     snd (EnhancedMemoryAdapter_set 1 ''b'' ''2'' None
            (snd (EnhancedMemoryAdapter_set 0 ''a'' ''1'' None
                    (EnhancedMemoryAdapter_new demo_enhanced_config))))"

definition demo_enhanced_epoch :: "string EnhancedMemoryAdapter" where
  "demo_enhanced_epoch =
     snd (EnhancedMemoryAdapter_set 1000 ''k'' ''v'' (Some (- 1000))
            (EnhancedMemoryAdapter_new demo_enhanced_config))"

definition demo_basic_config :: "string BasicAdapterConfig" where
  "demo_basic_config =
     \<lparr>b_defaultTTL = 0, b_maxKeys = 2, b_emitEvents = True, b_cleanupInterval = 0,
      b_serialization = identitySerializer\<rparr>"

definition demo_basic_temp :: "string BasicMemoryAdapter" where
  "demo_basic_temp =
     snd (BasicMemoryAdapter_set 1000 ''temp'' ''value'' (Some 50)
            (snd (BasicMemoryAdapter_set 1000 ''key1'' ''value1'' None
                    (BasicMemoryAdapter_new demo_basic_config))))"

text \<open>A facade over an adapter with the default codec and a default TTL of five seconds.\<close>

definition demo_kv :: KeyValueProps where
  "demo_kv =
     \<lparr>adapter = MemoryAdapter_new \<lparr>defaultTTL = 5000, maxKeys = 2, cleanupInterval = 0,
                                     serialization = defaultSerialization\<rparr>,
      description = ''demo'', kv_defaultTTL = None, namespace = ''demo''\<rparr>"

section \<open>Association lists as maps\<close>

lemma length_alist_update:
  "length (AList.update k v al) = (if k \<in> fst ` set al then length al else Suc (length al))"
  by (induction al) auto

lemma map_of_alist_update_same: "map_of (AList.update k v al) k = Some v"
  by (simp add: update_conv')

lemma alist_delete_filter: "AList.delete k al = filter (\<lambda>p. fst p \<noteq> k) al"
  by (induction al) auto


section \<open>set\<close>

lemma set_new_key_at_capacity:
  "key \<notin> fst ` set (store s) \<Longrightarrow> int (length (store s)) \<ge> maxKeys (options s) \<Longrightarrow>
   MemoryAdapter_set now key v ttl s = (Inl (MaxKeysLimit (maxKeys (options s))), s)"
  by (simp add: MemoryAdapter_set_def)

lemma set_success_store:
  assumes "MemoryAdapter_set now key v ttl s = (Inr u, s')"
  shows "\<exists>ser. serialize (serialization (options s)) v = Inr ser \<and>
         store s' = AList.update key \<lparr>entry_value = ser,
            expires = expiresAt now (effectiveTTL (defaultTTL (options s)) ttl)\<rparr> (store s)
         \<and> options s' = options s
         \<and> sets (stats s') = sets (stats s) + 1
         \<and> (key \<in> fst ` set (store s) \<or> int (length (store s)) < maxKeys (options s))"
  using assms
  by (auto simp: MemoryAdapter_set_def updateStats_def Let_def split: if_splits sum.splits)

lemma set_failure_unchanged:
  assumes "MemoryAdapter_set now key v ttl s = (Inl e, s')"
  shows "s' = s"
  using assms
  by (auto simp: MemoryAdapter_set_def Let_def split: if_splits sum.splits)

lemma set_serialized:
  assumes "serialize (serialization (options s)) v = Inr ser"
    and "key \<in> fst ` set (store s) \<or> int (length (store s)) < maxKeys (options s)"
  shows "MemoryAdapter_set now key v ttl s =
     (Inr (), updateStats (s\<lparr>store := AList.update key \<lparr>entry_value = ser,
            expires = expiresAt now (effectiveTTL (defaultTTL (options s)) ttl)\<rparr> (store s),
          stats := (stats s)\<lparr>sets := sets (stats s) + 1\<rparr>\<rparr>))"
  using assms by (auto simp: MemoryAdapter_set_def Let_def)

lemma set_success_size:
  assumes "MemoryAdapter_set now key v ttl s = (Inr u, s')"
    and "within_capacity s"
  shows "int (length (store s')) \<le> maxKeys (options s')"
proof -
  from set_success_store[OF assms(1)] obtain ser where
    st: "store s' = AList.update key \<lparr>entry_value = ser,
            expires = expiresAt now (effectiveTTL (defaultTTL (options s)) ttl)\<rparr> (store s)"
    and opts: "options s' = options s"
    and cap: "key \<in> fst ` set (store s) \<or> int (length (store s)) < maxKeys (options s)"
    by blast
  show ?thesis
  proof (cases "key \<in> fst ` set (store s)")
    case True
    then have "store s \<noteq> []" by auto
    with assms(2) True st opts show ?thesis by (simp add: length_alist_update within_capacity_def)
  next
    case False
    with cap st opts show ?thesis by (simp add: length_alist_update)
  qed
qed

section \<open>Every operation keeps the capacity bound and the distinctness of the keys\<close>

lemma store_ok_shrink:
  assumes "store_ok s" and "options s' = options s" and "store s' = filter P (store s)"
  shows "store_ok s'"
proof -
  have len: "length (store s') \<le> length (store s)" using assms(3) by simp
  have d: "distinct (map fst (store s'))"
    using assms(1,3) by (simp add: store_ok_def distinct_map_filter)
  have "within_capacity s'"
  proof (cases "store s = []")
    case True
    then show ?thesis using assms(3) by (simp add: within_capacity_def)
  next
    case False
    with assms(1) have "int (length (store s)) \<le> maxKeys (options s)"
      by (simp add: store_ok_def within_capacity_def)
    with len assms(2) show ?thesis by (simp add: within_capacity_def)
  qed
  with d show ?thesis by (simp add: store_ok_def)
qed

lemma store_ok_same:
  assumes "store_ok s" and "options s' = options s" and "store s' = store s"
  shows "store_ok s'"
  using assms by (simp add: store_ok_def within_capacity_def)

lemma get_store_cases:
  "options (snd (MemoryAdapter_get now key s)) = options s \<and>
   (store (snd (MemoryAdapter_get now key s)) = store s \<or>
    store (snd (MemoryAdapter_get now key s)) = filter (\<lambda>p. fst p \<noteq> key) (store s))"
  by (auto simp: MemoryAdapter_get_def updateStats_def Let_def alist_delete_filter
           split: option.splits sum.splits)

lemma exists_store_cases:
  "options (snd (MemoryAdapter_exists now key s)) = options s \<and>
   (store (snd (MemoryAdapter_exists now key s)) = store s \<or>
    store (snd (MemoryAdapter_exists now key s)) = filter (\<lambda>p. fst p \<noteq> key) (store s))"
  by (auto simp: MemoryAdapter_exists_def updateStats_def alist_delete_filter split: option.splits)

lemma delete_store_cases:
  "options (snd (MemoryAdapter_delete key s)) = options s \<and>
   (store (snd (MemoryAdapter_delete key s)) = store s \<or>
    store (snd (MemoryAdapter_delete key s)) = filter (\<lambda>p. fst p \<noteq> key) (store s))"
  by (auto simp: MemoryAdapter_delete_def updateStats_def alist_delete_filter)

lemma store_ok_get: "store_ok s \<Longrightarrow> store_ok (snd (MemoryAdapter_get now key s))"
  using get_store_cases[of now key s] store_ok_shrink store_ok_same by metis

lemma store_ok_exists: "store_ok s \<Longrightarrow> store_ok (snd (MemoryAdapter_exists now key s))"
  using exists_store_cases[of now key s] store_ok_shrink store_ok_same by metis

lemma store_ok_delete: "store_ok s \<Longrightarrow> store_ok (snd (MemoryAdapter_delete key s))"
  using delete_store_cases[of key s] store_ok_shrink store_ok_same by metis

lemma store_ok_set:
  assumes "store_ok s"
  shows "store_ok (snd (MemoryAdapter_set now key v ttl s))"
proof (cases "MemoryAdapter_set now key v ttl s")
  case (Pair r s')
  show ?thesis
  proof (cases r)
    case (Inl e)
    with Pair set_failure_unchanged have "s' = s" by metis
    with Pair assms show ?thesis by simp
  next
    case (Inr u)
    with Pair have ok: "MemoryAdapter_set now key v ttl s = (Inr u, s')" by simp
    from set_success_store[OF ok] obtain ser where
      st: "store s' = AList.update key \<lparr>entry_value = ser,
            expires = expiresAt now (effectiveTTL (defaultTTL (options s)) ttl)\<rparr> (store s)"
      by blast
    have "int (length (store s')) \<le> maxKeys (options s')"
      using set_success_size[OF ok] assms by (simp add: store_ok_def)
    moreover have "distinct (map fst (store s'))"
      using st assms by (simp add: store_ok_def distinct_update)
    ultimately show ?thesis using Pair by (simp add: store_ok_def within_capacity_def)
  qed
qed

section \<open>The sweep\<close>

lemma cleanup_loop_props:
  assumes "cleanup_loop now es (s, c) = (s', c')"
  shows "store s' = filter (\<lambda>p. fst p \<notin> fst ` set (filter (\<lambda>p. ttl_expired now (snd p)) es)) (store s)
       \<and> options s' = options s
       \<and> cleanupTimer s' = cleanupTimer s
       \<and> c' = c + length (filter (\<lambda>p. ttl_expired now (snd p)) es)
       \<and> stats s' = (stats s)\<lparr>expired := expired (stats s) + length (filter (\<lambda>p. ttl_expired now (snd p)) es)\<rparr>"
  using assms
proof (induction es arbitrary: s c)
  case Nil
  then show ?case by simp
next
  case (Cons p es)
  obtain key entry where p: "p = (key, entry)" by (cases p)
  show ?case
  proof (cases "ttl_expired now entry")
    case True
    let ?s1 = "s\<lparr>store := AList.delete key (store s),
                 stats := (stats s)\<lparr>expired := expired (stats s) + 1\<rparr>\<rparr>"
    from Cons.prems p True have "cleanup_loop now es (?s1, c + 1) = (s', c')" by simp
    from Cons.IH[OF this] p True show ?thesis
      by (auto simp: alist_delete_filter intro!: filter_cong)
  next
    case False
    with Cons.prems p have "cleanup_loop now es (s, c) = (s', c')" by simp
    from Cons.IH[OF this] p False show ?thesis by simp
  qed
qed

lemma filter_expired_keys_distinct:
  assumes "distinct (map fst st)"
  shows "filter (\<lambda>p. fst p \<notin> fst ` set (filter Q st)) st = filter (\<lambda>p. \<not> Q p) st"
proof (rule filter_cong[OF refl])
  fix p assume pin: "p \<in> set st"
  have inj: "inj_on fst (set st)" using assms by (simp add: distinct_map)
  show "(fst p \<notin> fst ` set (filter Q st)) = (\<not> Q p)"
  proof
    assume "fst p \<notin> fst ` set (filter Q st)"
    with pin show "\<not> Q p" by force
  next
    assume nq: "\<not> Q p"
    show "fst p \<notin> fst ` set (filter Q st)"
    proof
      assume "fst p \<in> fst ` set (filter Q st)"
      then obtain q where q: "q \<in> set st" "Q q" "fst q = fst p" by auto
      with inj pin have "q = p" by (auto dest: inj_onD)
      with q nq show False by simp
    qed
  qed
qed

lemma cleanup_result:
  assumes "distinct (map fst (store s))"
  shows "store (snd (MemoryAdapter_cleanup now s)) = filter (\<lambda>p. \<not> ttl_expired now (snd p)) (store s)"
    and "fst (MemoryAdapter_cleanup now s) = length (filter (\<lambda>p. ttl_expired now (snd p)) (store s))"
    and "expired (stats (snd (MemoryAdapter_cleanup now s))) =
           expired (stats s) + length (filter (\<lambda>p. ttl_expired now (snd p)) (store s))"
    and "options (snd (MemoryAdapter_cleanup now s)) = options s"
proof -
  obtain s' c' where loop: "cleanup_loop now (store s) (s, 0) = (s', c')"
    by (cases "cleanup_loop now (store s) (s, 0)")
  note props = cleanup_loop_props[OF loop]
  have res: "MemoryAdapter_cleanup now s = (c', updateStats s')"
    by (simp add: MemoryAdapter_cleanup_def loop)
  show "store (snd (MemoryAdapter_cleanup now s)) = filter (\<lambda>p. \<not> ttl_expired now (snd p)) (store s)"
    using props filter_expired_keys_distinct[OF assms, of "\<lambda>p. ttl_expired now (snd p)"]
    by (simp add: res updateStats_def)
  show "fst (MemoryAdapter_cleanup now s) = length (filter (\<lambda>p. ttl_expired now (snd p)) (store s))"
    using props by (simp add: res)
  show "expired (stats (snd (MemoryAdapter_cleanup now s))) =
           expired (stats s) + length (filter (\<lambda>p. ttl_expired now (snd p)) (store s))"
    using props by (simp add: res updateStats_def)
  show "options (snd (MemoryAdapter_cleanup now s)) = options s"
    using props by (simp add: res updateStats_def)
qed

lemma store_ok_cleanup:
  assumes "store_ok s"
  shows "store_ok (snd (MemoryAdapter_cleanup now s))"
proof -
  from assms have d: "distinct (map fst (store s))" by (simp add: store_ok_def)
  show ?thesis
    using store_ok_shrink[OF assms cleanup_result(4)[OF d] cleanup_result(1)[OF d]] .
qed

section \<open>The batch operations\<close>

lemma store_ok_mget_loop: "store_ok s \<Longrightarrow> store_ok (snd (mget_loop clk i ks s))"
proof (induction ks arbitrary: i s)
  case Nil
  then show ?case by simp
next
  case (Cons k ks)
  from Cons.prems have "store_ok (snd (MemoryAdapter_get (clk i) k s))" by (rule store_ok_get)
  from Cons.IH[OF this, of "Suc i"] show ?case
    by (auto split: prod.splits)
qed

lemma store_ok_mset_loop: "store_ok s \<Longrightarrow> store_ok (snd (mset_loop clk i es ttl s))"
proof (induction es arbitrary: i s)
  case Nil
  then show ?case by simp
next
  case (Cons e es)
  obtain key v where e: "e = (key, v)" by (cases e)
  from Cons.prems have ok: "store_ok (snd (MemoryAdapter_set (clk i) key v ttl s))" by (rule store_ok_set)
  show ?case
  proof (cases "MemoryAdapter_set (clk i) key v ttl s")
    case (Pair r s')
    with ok have s': "store_ok s'" by simp
    show ?thesis
    proof (cases r)
      case (Inl err)
      with Pair e s' show ?thesis by simp
    next
      case (Inr u)
      with Pair e Cons.IH[OF s', of "Suc i"] show ?thesis by simp
    qed
  qed
qed

lemma store_ok_deleteMany_loop: "store_ok s \<Longrightarrow> store_ok (snd (deleteMany_loop ks (b, s)))"
proof (induction ks arbitrary: b s)
  case Nil
  then show ?case by simp
next
  case (Cons k ks)
  from Cons.prems have ok: "store_ok (snd (MemoryAdapter_delete k s))" by (rule store_ok_delete)
  show ?case
  proof (cases "MemoryAdapter_delete k s")
    case (Pair d s')
    with ok have "store_ok s'" by simp
    from Cons.IH[OF this] Pair show ?thesis by simp
  qed
qed

lemma reachable_store_ok: "reachable s \<Longrightarrow> store_ok s"
proof (induction rule: reachable.induct)
  case (r_new config)
  show ?case by (simp add: store_ok_def within_capacity_def MemoryAdapter_new_def)
next
  case (r_get s now key)
  then show ?case by (simp add: store_ok_get)
next
  case (r_set s now key v ttl)
  then show ?case by (simp add: store_ok_set)
next
  case (r_delete s key)
  then show ?case by (simp add: store_ok_delete)
next
  case (r_exists s now key)
  then show ?case by (simp add: store_ok_exists)
next
  case (r_clear s)
  show ?case by (simp add: store_ok_def within_capacity_def MemoryAdapter_clear_def resetStats_def)
next
  case (r_mget s clk ks)
  then show ?case using store_ok_mget_loop[of s clk 0 ks]
    by (auto simp: MemoryAdapter_mget_def split: prod.splits)
next
  case (r_mset s clk entries ttl)
  then show ?case by (simp add: MemoryAdapter_mset_def store_ok_mset_loop)
next
  case (r_deleteMany s ks)
  then show ?case by (simp add: MemoryAdapter_deleteMany_def store_ok_deleteMany_loop)
next
  case (r_getStats s)
  then show ?case
    by (simp add: MemoryAdapter_getStats_def updateStats_def store_ok_def within_capacity_def)
next
  case (r_cleanup s now)
  then show ?case by (simp add: store_ok_cleanup)
next
  case (r_destroy s)
  show ?case by (simp add: store_ok_def within_capacity_def MemoryAdapter_destroy_def resetStats_def)
qed
section \<open>The example adapters, evaluated\<close>

lemma demo_empty_simps:
  "store demo_empty = []" "options demo_empty = demo_config" "stats demo_empty = zeroStats"
  by (simp_all add: demo_empty_def MemoryAdapter_new_def)

lemma demo_config_simps:
  "maxKeys demo_config = 2" "defaultTTL demo_config = 0"
  "serialize (serialization demo_config) v = Inr v"
  "deserialize (serialization demo_config) d = Inr d"
  by (simp_all add: demo_config_def identitySerializer_def)

lemma demo_full_store:
  "store demo_full = [(''a'', \<lparr>entry_value = ''1'', expires = None\<rparr>),
                      (''b'', \<lparr>entry_value = ''2'', expires = None\<rparr>)]"
  "options demo_full = demo_config"
  by (simp_all add: demo_full_def MemoryAdapter_set_def demo_empty_simps demo_config_simps
        updateStats_def expiresAt_def effectiveTTL_def Let_def)

lemma demo_full_reachable: "reachable demo_full"
  unfolding demo_full_def demo_empty_def by (intro reachable.intros)

section \<open>EnhancedMemoryAdapter.set\<close>

lemma enhanced_set_new_key_at_capacity:
  "key \<notin> fst ` set (e_store s) \<Longrightarrow> int (length (e_store s)) \<ge> e_maxKeys (e_options s) \<Longrightarrow>
   EnhancedMemoryAdapter_set now key v ttl s = (Inl (MaxKeysLimit (e_maxKeys (e_options s))), s)"
  by (simp add: EnhancedMemoryAdapter_set_def)

lemma enhanced_set_success_store:
  assumes "EnhancedMemoryAdapter_set now key v ttl s = (Inr u, s')"
  shows "\<exists>ser. e_serialize (e_options s) v = Inr ser \<and>
         e_store s' = AList.update key \<lparr>entry_value = ser,
            expires = expiresAt now (effectiveTTL (e_defaultTTL (e_options s)) ttl)\<rparr> (e_store s)
         \<and> e_options s' = e_options s
         \<and> (key \<in> fst ` set (e_store s) \<or> int (length (e_store s)) < e_maxKeys (e_options s))"
  using assms
  by (auto simp: EnhancedMemoryAdapter_set_def Let_def split: if_splits sum.splits)

lemma enhanced_set_success_size:
  assumes "EnhancedMemoryAdapter_set now key v ttl s = (Inr u, s')"
    and "e_store s = [] \<or> int (length (e_store s)) \<le> e_maxKeys (e_options s)"
  shows "int (length (e_store s')) \<le> e_maxKeys (e_options s')"
proof -
  from enhanced_set_success_store[OF assms(1)] obtain ser where
    st: "e_store s' = AList.update key \<lparr>entry_value = ser,
            expires = expiresAt now (effectiveTTL (e_defaultTTL (e_options s)) ttl)\<rparr> (e_store s)"
    and opts: "e_options s' = e_options s"
    and cap: "key \<in> fst ` set (e_store s) \<or> int (length (e_store s)) < e_maxKeys (e_options s)"
    by blast
  show ?thesis
  proof (cases "key \<in> fst ` set (e_store s)")
    case True
    then have "e_store s \<noteq> []" by auto
    with assms(2) True st opts show ?thesis by (simp add: length_alist_update)
  next
    case False
    with cap st opts show ?thesis by (simp add: length_alist_update)
  qed
qed

lemma enhanced_set_existing_key:
  assumes "key \<in> fst ` set (e_store s)" and "e_serialize (e_options s) v = Inr ser"
  shows "fst (EnhancedMemoryAdapter_set now key v ttl s) = Inr ()"
    and "length (e_store (snd (EnhancedMemoryAdapter_set now key v ttl s))) = length (e_store s)"
  using assms by (auto simp: EnhancedMemoryAdapter_set_def Let_def length_alist_update)

lemma set_existing_key:
  assumes "key \<in> fst ` set (store s)" and "serialize (serialization (options s)) v = Inr ser"
  shows "fst (MemoryAdapter_set now key v ttl s) = Inr ()"
    and "length (store (snd (MemoryAdapter_set now key v ttl s))) = length (store s)"
  using assms by (auto simp: MemoryAdapter_set_def updateStats_def Let_def length_alist_update)

lemma demo_enhanced_full_store:
  "e_store demo_enhanced_full = [(''a'', \<lparr>entry_value = ''1'', expires = None\<rparr>),
                      (''b'', \<lparr>entry_value = ''2'', expires = None\<rparr>)]"
  "e_options demo_enhanced_full = demo_enhanced_config"
  by (simp_all add: demo_enhanced_full_def EnhancedMemoryAdapter_set_def EnhancedMemoryAdapter_new_def
        demo_enhanced_config_def expiresAt_def effectiveTTL_def Let_def)

section \<open>get\<close>

lemma ttl_expired_iff:
  "ttl_expired now entry \<longleftrightarrow> expiry_passed now entry \<and> expires entry \<noteq> Some 0"
  by (auto simp: ttl_expired_def expiry_passed_def split: option.splits)


lemma not_passed_not_expired: "\<not> expiry_passed now entry \<Longrightarrow> \<not> ttl_expired now entry"
  by (simp add: ttl_expired_iff)

lemma get_expired:
  assumes "map_of (store s) key = Some entry" and "ttl_expired now entry"
  shows "MemoryAdapter_get now key s =
           (Inr None, updateStats (s\<lparr>store := AList.delete key (store s),
                                       stats := (stats s)\<lparr>expired := expired (stats s) + 1\<rparr>\<rparr>))"
  using assms by (simp add: MemoryAdapter_get_def)

lemma get_live:
  assumes "map_of (store s) key = Some entry" and "\<not> ttl_expired now entry"
  shows "snd (MemoryAdapter_get now key s) = s\<lparr>stats := (stats s)\<lparr>hits := hits (stats s) + 1\<rparr>\<rparr>"
    and "fst (MemoryAdapter_get now key s) =
           (case deserialize (serialization (options s)) (entry_value entry) of
              Inl err \<Rightarrow> Inl err | Inr v \<Rightarrow> Inr (Some v))"
  using assms by (simp_all add: MemoryAdapter_get_def Let_def split: sum.splits)

lemma get_absent:
  assumes "map_of (store s) key = None"
  shows "MemoryAdapter_get now key s =
           (Inr None, s\<lparr>stats := (stats s)\<lparr>misses := misses (stats s) + 1\<rparr>\<rparr>)"
  using assms by (simp add: MemoryAdapter_get_def)



lemma get_expired_effect:
  assumes "map_of (store s) key = Some entry" and "ttl_expired now entry"
  shows "fst (MemoryAdapter_get now key s) = Inr None"
    and "store (snd (MemoryAdapter_get now key s)) = AList.delete key (store s)"
    and "key \<notin> fst ` set (store (snd (MemoryAdapter_get now key s)))"
    and "expired (stats (snd (MemoryAdapter_get now key s))) = expired (stats s) + 1"
    and "misses (stats (snd (MemoryAdapter_get now key s))) = misses (stats s)"
    and "hits (stats (snd (MemoryAdapter_get now key s))) = hits (stats s)"
  by (simp_all add: get_expired[OF assms] updateStats_def delete_notin_dom)

lemma get_live_effect:
  assumes "map_of (store s) key = Some entry" and "\<not> ttl_expired now entry"
  shows "store (snd (MemoryAdapter_get now key s)) = store s"
    and "hits (stats (snd (MemoryAdapter_get now key s))) = hits (stats s) + 1"
    and "misses (stats (snd (MemoryAdapter_get now key s))) = misses (stats s)"
    and "expired (stats (snd (MemoryAdapter_get now key s))) = expired (stats s)"
  by (simp_all add: get_live(1)[OF assms])

lemma get_absent_effect:
  assumes "map_of (store s) key = None"
  shows "fst (MemoryAdapter_get now key s) = Inr None"
    and "store (snd (MemoryAdapter_get now key s)) = store s"
    and "misses (stats (snd (MemoryAdapter_get now key s))) = misses (stats s) + 1"
    and "hits (stats (snd (MemoryAdapter_get now key s))) = hits (stats s)"
    and "expired (stats (snd (MemoryAdapter_get now key s))) = expired (stats s)"
  by (simp_all add: get_absent[OF assms])

section \<open>get of the event-emitting adapter\<close>

lemma emitEvent_fields:
  "b_store (emitEvent ev s) = b_store s" "b_stats (emitEvent ev s) = b_stats s"
  "b_adapterConfig (emitEvent ev s) = b_adapterConfig s"
  by (simp_all add: emitEvent_def)

lemma basic_get_expired_effect:
  assumes "map_of (b_store s) key = Some entry" and "ttl_expired now entry"
  shows "fst (BasicMemoryAdapter_get now key s) = Inr None"
    and "b_store (snd (BasicMemoryAdapter_get now key s)) = AList.delete key (b_store s)"
    and "b_expired (b_stats (snd (BasicMemoryAdapter_get now key s))) = b_expired (b_stats s) + 1"
    and "b_misses (b_stats (snd (BasicMemoryAdapter_get now key s))) = b_misses (b_stats s)"
    and "b_hits (b_stats (snd (BasicMemoryAdapter_get now key s))) = b_hits (b_stats s)"
  using assms
  by (simp_all add: BasicMemoryAdapter_get_def emitEvent_fields updateKeysCount_def)

lemma basic_get_live_effect:
  assumes "map_of (b_store s) key = Some entry" and "\<not> ttl_expired now entry"
  shows "b_store (snd (BasicMemoryAdapter_get now key s)) = b_store s"
    and "b_hits (b_stats (snd (BasicMemoryAdapter_get now key s))) = b_hits (b_stats s) + 1"
    and "b_misses (b_stats (snd (BasicMemoryAdapter_get now key s))) = b_misses (b_stats s)"
    and "b_expired (b_stats (snd (BasicMemoryAdapter_get now key s))) = b_expired (b_stats s)"
  using assms
  by (simp_all add: BasicMemoryAdapter_get_def emitEvent_fields emitError_def Let_def split: sum.splits)

lemma basic_get_absent_effect:
  assumes "map_of (b_store s) key = None"
  shows "fst (BasicMemoryAdapter_get now key s) = Inr None"
    and "b_store (snd (BasicMemoryAdapter_get now key s)) = b_store s"
    and "b_misses (b_stats (snd (BasicMemoryAdapter_get now key s))) = b_misses (b_stats s) + 1"
    and "b_hits (b_stats (snd (BasicMemoryAdapter_get now key s))) = b_hits (b_stats s)"
    and "b_expired (b_stats (snd (BasicMemoryAdapter_get now key s))) = b_expired (b_stats s)"
  using assms
  by (simp_all add: BasicMemoryAdapter_get_def emitEvent_fields)

lemma demo_temp_store:
  "store demo_temp = [(''key1'', \<lparr>entry_value = ''value1'', expires = None\<rparr>),
                      (''temp'', \<lparr>entry_value = ''value'', expires = Some 1050\<rparr>)]"
  "options demo_temp = demo_config"
  "misses (stats demo_temp) = 0" "hits (stats demo_temp) = 0" "expired (stats demo_temp) = 0"
  by (simp_all add: demo_temp_def MemoryAdapter_set_def demo_empty_simps demo_config_simps
        updateStats_def expiresAt_def effectiveTTL_def Let_def zeroStats_def)

lemma demo_basic_temp_store:
  "b_store demo_basic_temp = [(''key1'', \<lparr>entry_value = ''value1'', expires = None\<rparr>),
                      (''temp'', \<lparr>entry_value = ''value'', expires = Some 1050\<rparr>)]"
  "b_misses (b_stats demo_basic_temp) = 0" "b_expired (b_stats demo_basic_temp) = 0"
  by (simp_all add: demo_basic_temp_def BasicMemoryAdapter_set_def BasicMemoryAdapter_new_def
        demo_basic_config_def identitySerializer_def emitEvent_def emitError_def updateKeysCount_def
        effectiveTTL_def Let_def)

section \<open>The expiry that set stores\<close>




lemma demo_kv_simps:
  "store (adapter demo_kv) = []" "maxKeys (options (adapter demo_kv)) = 2"
  "defaultTTL (options (adapter demo_kv)) = 5000"
  "serialize (serialization (options (adapter demo_kv))) v = Inr (defaultSerialize v)"
  "kv_defaultTTL demo_kv = None" "namespace demo_kv = ''demo''"
  by (simp_all add: demo_kv_def MemoryAdapter_new_def defaultSerialization_def)



section \<open>mset\<close>

lemma mset_loop_append:
  "mset_loop clk i (pre @ post) ttl s =
     (case mset_loop clk i pre ttl s of
        (Inl e, mid) \<Rightarrow> (Inl e, mid)
      | (Inr u, mid) \<Rightarrow> mset_loop clk (i + length pre) post ttl mid)"
proof (induction pre arbitrary: i s)
  case Nil
  show ?case by simp
next
  case (Cons p pre)
  obtain key v where p: "p = (key, v)" by (cases p)
  obtain r s1 where st: "MemoryAdapter_set (clk i) key v ttl s = (r, s1)"
    by (cases "MemoryAdapter_set (clk i) key v ttl s")
  show ?case
  proof (cases r)
    case (Inl e)
    with p st show ?thesis by simp
  next
    case (Inr u)
    with p st Cons.IH[of "Suc i" s1] show ?thesis by (simp split: prod.splits sum.splits)
  qed
qed

lemma mset_loop_failure:
  assumes "mset_loop clk i es ttl s = (Inl e, s')"
  shows "\<exists>j<length es. mset_loop clk i (take j es) ttl s = (Inr (), s')
           \<and> MemoryAdapter_set (clk (i + j)) (fst (es ! j)) (snd (es ! j)) ttl s' = (Inl e, s')"
  using assms
proof (induction es arbitrary: i s)
  case Nil
  then show ?case by simp
next
  case (Cons p es)
  obtain key v where p: "p = (key, v)" by (cases p)
  obtain r s1 where st: "MemoryAdapter_set (clk i) key v ttl s = (r, s1)"
    by (cases "MemoryAdapter_set (clk i) key v ttl s")
  show ?case
  proof (cases r)
    case (Inl e1)
    with Cons.prems p st have e: "e1 = e" and s': "s1 = s'" by simp_all
    from st Inl have "s1 = s" by (simp add: set_failure_unchanged)
    with st Inl e s' p have
      "0 < length (p # es) \<and> mset_loop clk i (take 0 (p # es)) ttl s = (Inr (), s')
       \<and> MemoryAdapter_set (clk (i + 0)) (fst ((p # es) ! 0)) (snd ((p # es) ! 0)) ttl s' = (Inl e, s')"
      by simp
    then show ?thesis by (rule exI[of _ 0])
  next
    case (Inr u)
    with Cons.prems p st have "mset_loop clk (Suc i) es ttl s1 = (Inl e, s')" by simp
    from Cons.IH[OF this] obtain j where j: "j < length es"
      and pre: "mset_loop clk (Suc i) (take j es) ttl s1 = (Inr (), s')"
      and fail: "MemoryAdapter_set (clk (Suc i + j)) (fst (es ! j)) (snd (es ! j)) ttl s' = (Inl e, s')"
      by (elim exE conjE)
    have "Suc j < length (p # es) \<and> mset_loop clk i (take (Suc j) (p # es)) ttl s = (Inr (), s')
        \<and> MemoryAdapter_set (clk (i + Suc j)) (fst ((p # es) ! Suc j)) (snd ((p # es) ! Suc j)) ttl s'
                     = (Inl e, s')"
      using p st Inr pre fail j by simp
    then show ?thesis by (rule exI[of _ "Suc j"])
  qed
qed

lemma mset_loop_committed:
  assumes "mset_loop clk i pre ttl s = (Inr u, mid)"
  shows "options mid = options s
       \<and> (\<forall>k. k \<notin> fst ` set pre \<longrightarrow> map_of (store mid) k = map_of (store s) k)
       \<and> (\<forall>k v. map_of (rev pre) k = Some v \<longrightarrow>
            (\<exists>ser. serialize (serialization (options s)) v = Inr ser
                 \<and> map_option entry_value (map_of (store mid) k) = Some ser))"
  using assms
proof (induction pre arbitrary: i s)
  case Nil
  then show ?case by simp
next
  case (Cons p pre)
  obtain key v where p: "p = (key, v)" by (cases p)
  obtain r s1 where st: "MemoryAdapter_set (clk i) key v ttl s = (r, s1)"
    by (cases "MemoryAdapter_set (clk i) key v ttl s")
  show ?case
  proof (cases r)
    case (Inl e)
    with Cons.prems p st show ?thesis by simp
  next
    case (Inr u1)
    with st have ok: "MemoryAdapter_set (clk i) key v ttl s = (Inr u1, s1)" by simp
    from Cons.prems p st Inr have rest: "mset_loop clk (Suc i) pre ttl s1 = (Inr u, mid)" by simp
    from set_success_store[OF ok] obtain ser where
      c: "serialize (serialization (options s)) v = Inr ser"
      and store1: "store s1 = AList.update key \<lparr>entry_value = ser,
            expires = expiresAt (clk i) (effectiveTTL (defaultTTL (options s)) ttl)\<rparr> (store s)"
      and opts1: "options s1 = options s"
      by (elim exE conjE)
    note ih = Cons.IH[OF rest]
    from ih have o: "options mid = options s1" by (rule conjunct1)
    from ih have other: "\<And>k. k \<notin> fst ` set pre \<Longrightarrow> map_of (store mid) k = map_of (store s1) k"
      by simp
    from ih have mine: "\<And>k w. map_of (rev pre) k = Some w \<Longrightarrow>
            \<exists>ser. serialize (serialization (options s1)) w = Inr ser
                 \<and> map_option entry_value (map_of (store mid) k) = Some ser"
      by simp
    have a: "options mid = options s" using o opts1 by simp
    have b: "\<forall>k. k \<notin> fst ` set (p # pre) \<longrightarrow> map_of (store mid) k = map_of (store s) k"
    proof (intro allI impI)
      fix k assume k: "k \<notin> fst ` set (p # pre)"
      then have k1: "k \<notin> fst ` set pre" and k2: "k \<noteq> key" using p by auto
      have "map_of (store mid) k = map_of (store s1) k" by (rule other[OF k1])
      also have "\<dots> = map_of (store s) k" using k2 by (simp add: store1 update_conv')
      finally show "map_of (store mid) k = map_of (store s) k" .
    qed
    have c': "\<forall>k w. map_of (rev (p # pre)) k = Some w \<longrightarrow>
            (\<exists>ser. serialize (serialization (options s)) w = Inr ser
                 \<and> map_option entry_value (map_of (store mid) k) = Some ser)"
    proof (intro allI impI)
      fix k w assume kw: "map_of (rev (p # pre)) k = Some w"
      show "\<exists>ser. serialize (serialization (options s)) w = Inr ser
                 \<and> map_option entry_value (map_of (store mid) k) = Some ser"
      proof (cases "map_of (rev pre) k")
        case (Some w')
        with kw p have "w' = w" by (simp add: map_add_def)
        with mine[OF Some] opts1 show ?thesis by simp
      next
        case None
        with kw p have k: "k = key" and w: "w = v"
          by (simp_all add: map_add_def split: if_splits)
        from None have "k \<notin> fst ` set (rev pre)" by (simp add: map_of_eq_None_iff)
        then have "k \<notin> fst ` set pre" by simp
        from other[OF this] have "map_of (store mid) k = map_of (store s1) k" .
        also have "\<dots> = Some \<lparr>entry_value = ser,
            expires = expiresAt (clk i) (effectiveTTL (defaultTTL (options s)) ttl)\<rparr>"
          by (simp only: k store1 map_of_alist_update_same)
        finally have "map_option entry_value (map_of (store mid) k) = Some ser" by simp
        with c w show ?thesis by simp
      qed
    qed
    from a b c' show ?thesis by (intro conjI)
  qed
qed

lemma mset_fails_at:
  assumes i: "i < length es"
    and pre: "mset_loop clk 0 (take i es) ttl s = (Inr (), s')"
    and fail: "fst (MemoryAdapter_set (clk i) (fst (es ! i)) (snd (es ! i)) ttl s') = Inl e"
  shows "mset_loop clk 0 es ttl s = (Inl e, s')"
proof -
  obtain s2 where st: "MemoryAdapter_set (clk i) (fst (es ! i)) (snd (es ! i)) ttl s' = (Inl e, s2)"
    using fail by (cases "MemoryAdapter_set (clk i) (fst (es ! i)) (snd (es ! i)) ttl s'") simp
  have s2: "s2 = s'" by (rule set_failure_unchanged[OF st])
  have len: "length (take i es) = i" using i by simp
  have "mset_loop clk i ((fst (es ! i), snd (es ! i)) # drop (Suc i) es) ttl s' = (Inl e, s')"
    by (simp only: mset_loop.simps st s2 prod.case sum.case)
  then have tail: "mset_loop clk i (es ! i # drop (Suc i) es) ttl s' = (Inl e, s')"
    by simp
  have "mset_loop clk 0 (take i es @ es ! i # drop (Suc i) es) ttl s = (Inl e, s')"
    by (simp only: mset_loop_append pre prod.case sum.case len add_0 tail)
  then show ?thesis
    by (simp only: id_take_nth_drop[OF i, symmetric])
qed

lemma demo_mset_prefix: "MemoryAdapter_mset int [(''a'', ''1''), (''b'', ''2'')] None demo_empty = (Inr (), demo_full)"
proof -
  define s1 where "s1 = snd (MemoryAdapter_set 0 ''a'' ''1'' None demo_empty)"
  have a: "MemoryAdapter_set 0 ''a'' ''1'' None demo_empty = (Inr (), s1)"
    unfolding s1_def
    by (rule prod_eqI)
      (simp_all add: set_serialized[where ser = "''1''"] demo_empty_simps demo_config_simps)
  have a_store: "store s1 = [(''a'', \<lparr>entry_value = ''1'', expires = None\<rparr>)]"
    and a_opts: "options s1 = demo_config"
    unfolding s1_def
    by (simp_all add: set_serialized[where ser = "''1''"] demo_empty_simps demo_config_simps
          updateStats_def expiresAt_def effectiveTTL_def)
  have full: "demo_full = snd (MemoryAdapter_set 1 ''b'' ''2'' None s1)"
    by (simp only: demo_full_def s1_def)
  have "fst (MemoryAdapter_set 1 ''b'' ''2'' None s1) = Inr ()"
    by (simp add: set_serialized[where ser = "''2''"] a_store a_opts demo_config_simps)
  then have b: "MemoryAdapter_set 1 ''b'' ''2'' None s1 = (Inr (), demo_full)"
    by (simp only: full prod_eq_iff fst_conv snd_conv simp_thms)
  have i0: "int 0 = 0" and i1: "int (Suc 0) = 1" by simp_all
  have "mset_loop int 0 [(''a'', ''1''), (''b'', ''2'')] None demo_empty = (Inr (), demo_full)"
    by (simp only: mset_loop.simps i0 i1 a b prod.case sum.case)
  then show ?thesis by (simp only: MemoryAdapter_mset_def)
qed

section \<open>What a sweep leaves\<close>

lemma map_of_kept_entries:
  assumes "distinct (map fst st)"
  shows "map_of (filter (\<lambda>p. keep (snd p)) st) key =
           (if \<exists>entry. map_of st key = Some entry \<and> keep entry then map_of st key else None)"
  using assms
  by (induction st) (auto simp: map_of_eq_None_iff image_iff)

lemma length_filter_compl:
  "length (filter Q xs) = length xs - length (filter (\<lambda>x. \<not> Q x) xs)"
  using sum_length_filter_compl[of Q xs] by simp

lemma swept_entries:
  assumes d: "distinct (map fst st)"
    and st': "st' = filter (\<lambda>p. \<not> ttl_expired now (snd p)) st"
  shows "(\<forall>k entry. map_of st k = Some entry \<and> \<not> expiry_passed now entry
             \<longrightarrow> map_of st' k = Some entry)
       \<and> (\<forall>k entry. map_of st k = Some entry \<and> expiry_passed now entry \<and> expires entry \<noteq> Some 0
             \<longrightarrow> map_of st' k = None)
       \<and> (\<forall>k entry. map_of st' k = Some entry
             \<longrightarrow> map_of st k = Some entry \<and> (\<not> expiry_passed now entry \<or> expires entry = Some 0))"
proof -
  have m: "\<And>k. map_of st' k =
     (if \<exists>entry. map_of st k = Some entry \<and> \<not> ttl_expired now entry then map_of st k else None)"
    unfolding st' by (rule map_of_kept_entries[OF d])
  show ?thesis
    by (auto simp: m ttl_expired_iff)
qed

section \<open>The sweep of EnhancedMemoryAdapter\<close>

lemma enhanced_cleanup_loop_props:
  assumes "enhanced_cleanup_loop now es (s, c) = (s', c')"
  shows "e_store s' = filter (\<lambda>p. fst p \<notin> fst ` set (filter (\<lambda>p. ttl_expired now (snd p)) es)) (e_store s)
       \<and> e_options s' = e_options s
       \<and> c' = c + length (filter (\<lambda>p. ttl_expired now (snd p)) es)
       \<and> e_expired (e_stats s') = e_expired (e_stats s) + length (filter (\<lambda>p. ttl_expired now (snd p)) es)"
  using assms
proof (induction es arbitrary: s c)
  case Nil
  then show ?case by simp
next
  case (Cons p es)
  obtain key entry where p: "p = (key, entry)" by (cases p)
  show ?case
  proof (cases "ttl_expired now entry")
    case True
    let ?s1 = "s\<lparr>e_store := AList.delete key (e_store s),
                 e_stats := (e_stats s)\<lparr>e_expired := e_expired (e_stats s) + 1\<rparr>\<rparr>"
    from Cons.prems p True have "enhanced_cleanup_loop now es (?s1, c + 1) = (s', c')" by simp
    from Cons.IH[OF this] p True show ?thesis
      by (auto simp: alist_delete_filter intro!: filter_cong)
  next
    case False
    with Cons.prems p have "enhanced_cleanup_loop now es (s, c) = (s', c')" by simp
    from Cons.IH[OF this] p False show ?thesis by simp
  qed
qed

lemma enhanced_cleanup_result:
  assumes "distinct (map fst (e_store s))"
  shows "e_store (snd (EnhancedMemoryAdapter_cleanup now s))
           = filter (\<lambda>p. \<not> ttl_expired now (snd p)) (e_store s)"
    and "fst (EnhancedMemoryAdapter_cleanup now s)
           = length (filter (\<lambda>p. ttl_expired now (snd p)) (e_store s))"
    and "e_expired (e_stats (snd (EnhancedMemoryAdapter_cleanup now s))) =
           e_expired (e_stats s) + length (filter (\<lambda>p. ttl_expired now (snd p)) (e_store s))"
proof -
  obtain s' c' where loop: "enhanced_cleanup_loop now (e_store s) (s, 0) = (s', c')"
    by (cases "enhanced_cleanup_loop now (e_store s) (s, 0)")
  note props = enhanced_cleanup_loop_props[OF loop]
  have res: "EnhancedMemoryAdapter_cleanup now s = (c', s')"
    by (simp add: EnhancedMemoryAdapter_cleanup_def loop)
  show "e_store (snd (EnhancedMemoryAdapter_cleanup now s))
           = filter (\<lambda>p. \<not> ttl_expired now (snd p)) (e_store s)"
    using props filter_expired_keys_distinct[OF assms, of "\<lambda>p. ttl_expired now (snd p)"]
    by (simp add: res)
  show "fst (EnhancedMemoryAdapter_cleanup now s)
           = length (filter (\<lambda>p. ttl_expired now (snd p)) (e_store s))"
    using props by (simp add: res)
  show "e_expired (e_stats (snd (EnhancedMemoryAdapter_cleanup now s))) =
           e_expired (e_stats s) + length (filter (\<lambda>p. ttl_expired now (snd p)) (e_store s))"
    using props by (simp add: res)
qed

section \<open>Examples of sweeps\<close>

lemma demo_epoch_store:
  "store demo_epoch = [(''k'', \<lparr>entry_value = ''v'', expires = Some 0\<rparr>)]"
  "options demo_epoch = demo_config"
  "expired (stats demo_epoch) = 0" "misses (stats demo_epoch) = 0" "hits (stats demo_epoch) = 0"
  by (simp_all add: demo_epoch_def MemoryAdapter_set_def demo_empty_simps demo_config_simps
        updateStats_def expiresAt_def effectiveTTL_def Let_def zeroStats_def)

lemma demo_enhanced_epoch_store:
  "e_store demo_enhanced_epoch = [(''k'', \<lparr>entry_value = ''v'', expires = Some 0\<rparr>)]"
  by (simp add: demo_enhanced_epoch_def EnhancedMemoryAdapter_set_def EnhancedMemoryAdapter_new_def
        demo_enhanced_config_def expiresAt_def effectiveTTL_def Let_def)

lemma demo_enhanced_temp_store:
  "e_store demo_enhanced_temp = [(''key1'', \<lparr>entry_value = ''value1'', expires = None\<rparr>),
                      (''temp'', \<lparr>entry_value = ''value'', expires = Some 1050\<rparr>)]"
  "e_expired (e_stats demo_enhanced_temp) = 0"
  by (simp_all add: demo_enhanced_temp_def EnhancedMemoryAdapter_set_def EnhancedMemoryAdapter_new_def
        demo_enhanced_config_def expiresAt_def effectiveTTL_def Let_def)

section \<open>Reading what a negative time to live wrote\<close>







section \<open>Listing the keys\<close>

lemma basic_keys_demo:
  "fst (BasicMemoryAdapter_keys 1100 demo_basic_temp) = [''key1'']"
proof -
  let ?temp = "\<lparr>entry_value = ''value'', expires = Some 1050\<rparr>"
  let ?live = "\<lparr>entry_value = ''value1'', expires = None\<rparr>"
  have x: "ttl_expired 1100 ?temp" and l: "\<not> ttl_expired 1100 ?live"
    by (simp_all add: ttl_expired_def)
  obtain s' c' where loop: "basic_cleanup_loop 1100 (b_store demo_basic_temp) (demo_basic_temp, 0) = (s', c')"
    by (cases "basic_cleanup_loop 1100 (b_store demo_basic_temp) (demo_basic_temp, 0)")
  then have "b_store s' = [(''key1'', ?live)]"
    by (auto simp: demo_basic_temp_store(1) x l emitEvent_def)
  then show ?thesis
    by (simp add: BasicMemoryAdapter_keys_def BasicMemoryAdapter_cleanup_def loop updateKeysCount_def)
qed

section \<open>The default codec on undefined\<close>

lemma deserialize_null: "defaultDeserialize ''null'' = Inr JNull"
  by code_simp

lemma default_codec_simps:
  "serialize defaultSerialization v = Inr (defaultSerialize v)"
  "deserialize defaultSerialization data = defaultDeserialize data"
  by (simp_all add: defaultSerialization_def)

lemma set_undefined_entry:
  assumes codec: "serialization (options s) = defaultSerialization"
    and room: "key \<in> fst ` set (store s) \<or> int (length (store s)) < maxKeys (options s)"
  shows "fst (MemoryAdapter_set now key JUndefined ttl s) = Inr ()"
    and "options (snd (MemoryAdapter_set now key JUndefined ttl s)) = options s"
    and "map_of (store (snd (MemoryAdapter_set now key JUndefined ttl s))) key =
           Some \<lparr>entry_value = ''null'',
                 expires = expiresAt now (effectiveTTL (defaultTTL (options s)) ttl)\<rparr>"
proof -
  have ser: "serialize (serialization (options s)) JUndefined = Inr ''null''"
    by (simp add: codec default_codec_simps defaultSerialize_def)
  note r = set_serialized[OF ser room, of now ttl]
  show "fst (MemoryAdapter_set now key JUndefined ttl s) = Inr ()"
    by (simp add: r)
  show "options (snd (MemoryAdapter_set now key JUndefined ttl s)) = options s"
    by (simp add: r updateStats_def)
  show "map_of (store (snd (MemoryAdapter_set now key JUndefined ttl s))) key =
           Some \<lparr>entry_value = ''null'',
                 expires = expiresAt now (effectiveTTL (defaultTTL (options s)) ttl)\<rparr>"
    by (simp add: r updateStats_def map_of_alist_update_same)
qed

section \<open>Round trips through the default codec\<close>

lemma roundtrip_top_level_marker_string:
  "defaultDeserialize (defaultSerialize (JStr '':a'')) = Inr (JStr '':a'')"
  by code_simp

lemma roundtrip_empty_string:
  "defaultDeserialize (defaultSerialize (JStr [])) = Inr (JStr [])"
  by code_simp

lemma roundtrip_empty_blob:
  "defaultDeserialize (defaultSerialize (JBuf [])) = Inr (JBuf [])"
  by code_simp

lemma roundtrip_top_level_blob:
  "defaultDeserialize (defaultSerialize (JBuf [0, 1, 255])) = Inr (JBuf [0, 1, 255])"
  by code_simp

lemma nested_marker_string_serialized:
  "defaultSerialize (JArr [JStr '':a'']) = ''['' @ [dquote] @ '':a'' @ [dquote] @ '']''"
  by code_simp

lemma nested_marker_string_lost:
  "defaultDeserialize (defaultSerialize (JArr [JStr '':a''])) = Inr (JArr [JStr ''a''])"
  by code_simp

lemma nested_marker_member_lost:
  "defaultDeserialize (defaultSerialize (JObj [(''k'', JStr '':a'')])) = Inr (JObj [(''k'', JStr ''a'')])"
  by code_simp

lemma nested_blob_lost:
  "defaultDeserialize (defaultSerialize (JArr [JBuf [0, 1]]))
     = Inr (JArr [JObj [(''type'', JStr ''Buffer''), (''data'', JArr [JNum 0, JNum 1])]])"
  by code_simp

lemma recursive_nested_marker_string_kept:
  "defaultDeserialize (defaultSerialize_recursive (JArr [JStr '':a''])) = Inr (JArr [JStr '':a''])"
  by code_simp

lemma recursive_marker_key_changed:
  "defaultDeserialize (defaultSerialize_recursive (JObj [('':a'', JNum 1)])) = Inr (JObj [(''::a'', JNum 1)])"
  by code_simp

section \<open>The capacity of EnhancedMemoryAdapter\<close>

lemma length_alist_delete_le: "length (AList.delete k al) \<le> length al"
  by (simp add: alist_delete_filter)

lemma enhanced_capacity_shrink:
  assumes "enhanced_within_capacity t" and "e_options t' = e_options t"
    and "length (e_store t') \<le> length (e_store t)"
  shows "enhanced_within_capacity t'"
  using assms by (auto simp: enhanced_within_capacity_def)

lemma enhanced_set_failure_unchanged:
  assumes "EnhancedMemoryAdapter_set now key v ttl t = (Inl e, t')"
  shows "t' = t"
  using assms
  by (auto simp: EnhancedMemoryAdapter_set_def Let_def split: if_splits sum.splits)

lemma enhanced_capacity_get:
  assumes "enhanced_within_capacity t"
  shows "enhanced_within_capacity (snd (EnhancedMemoryAdapter_get now key t))"
proof (rule enhanced_capacity_shrink[OF assms])
  show "e_options (snd (EnhancedMemoryAdapter_get now key t)) = e_options t"
    by (auto simp: EnhancedMemoryAdapter_get_def Let_def split: option.splits sum.splits)
  show "length (e_store (snd (EnhancedMemoryAdapter_get now key t))) \<le> length (e_store t)"
    by (auto simp: EnhancedMemoryAdapter_get_def Let_def length_alist_delete_le split: option.splits sum.splits)
qed

lemma enhanced_capacity_exists:
  assumes "enhanced_within_capacity t"
  shows "enhanced_within_capacity (snd (EnhancedMemoryAdapter_exists now key t))"
proof (rule enhanced_capacity_shrink[OF assms])
  show "e_options (snd (EnhancedMemoryAdapter_exists now key t)) = e_options t"
    by (auto simp: EnhancedMemoryAdapter_exists_def split: option.splits)
  show "length (e_store (snd (EnhancedMemoryAdapter_exists now key t))) \<le> length (e_store t)"
    by (auto simp: EnhancedMemoryAdapter_exists_def length_alist_delete_le split: option.splits)
qed

lemma enhanced_capacity_delete:
  assumes "enhanced_within_capacity t"
  shows "enhanced_within_capacity (snd (EnhancedMemoryAdapter_delete key t))"
proof (rule enhanced_capacity_shrink[OF assms])
  show "e_options (snd (EnhancedMemoryAdapter_delete key t)) = e_options t"
    by (auto simp: EnhancedMemoryAdapter_delete_def)
  show "length (e_store (snd (EnhancedMemoryAdapter_delete key t))) \<le> length (e_store t)"
    by (auto simp: EnhancedMemoryAdapter_delete_def length_alist_delete_le)
qed

lemma enhanced_capacity_set:
  assumes "enhanced_within_capacity t"
  shows "enhanced_within_capacity (snd (EnhancedMemoryAdapter_set now key v ttl t))"
proof (cases "EnhancedMemoryAdapter_set now key v ttl t")
  case (Pair r t')
  show ?thesis
  proof (cases r)
    case (Inl e)
    with Pair have "t' = t" by (simp add: enhanced_set_failure_unchanged)
    with Pair assms show ?thesis by simp
  next
    case (Inr u)
    with Pair have ok: "EnhancedMemoryAdapter_set now key v ttl t = (Inr u, t')" by simp
    from assms have "e_store t = [] \<or> int (length (e_store t)) \<le> e_maxKeys (e_options t)"
      by (simp add: enhanced_within_capacity_def)
    from enhanced_set_success_size[OF ok this] Pair show ?thesis
      by (simp add: enhanced_within_capacity_def)
  qed
qed

lemma enhanced_capacity_cleanup:
  assumes "enhanced_within_capacity t"
  shows "enhanced_within_capacity (snd (EnhancedMemoryAdapter_cleanup now t))"
proof -
  obtain t' c' where loop: "enhanced_cleanup_loop now (e_store t) (t, 0) = (t', c')"
    by (cases "enhanced_cleanup_loop now (e_store t) (t, 0)")
  note props = enhanced_cleanup_loop_props[OF loop]
  have res: "snd (EnhancedMemoryAdapter_cleanup now t) = t'"
    by (simp add: EnhancedMemoryAdapter_cleanup_def loop)
  have "enhanced_within_capacity t'"
  proof (rule enhanced_capacity_shrink[OF assms])
    show "e_options t' = e_options t" using props by simp
    show "length (e_store t') \<le> length (e_store t)" using props by simp
  qed
  then show ?thesis by (simp only: res)
qed

lemma enhanced_capacity_mget_loop:
  "enhanced_within_capacity t \<Longrightarrow> enhanced_within_capacity (snd (enhanced_mget_loop clk i ks t))"
proof (induction ks arbitrary: i t)
  case Nil
  then show ?case by simp
next
  case (Cons k ks)
  from Cons.prems have "enhanced_within_capacity (snd (EnhancedMemoryAdapter_get (clk i) k t))"
    by (rule enhanced_capacity_get)
  from Cons.IH[OF this, of "Suc i"] show ?case
    by (auto split: prod.splits)
qed

lemma enhanced_capacity_mset_loop:
  "enhanced_within_capacity t \<Longrightarrow> enhanced_within_capacity (snd (enhanced_mset_loop clk i es ttl t))"
proof (induction es arbitrary: i t)
  case Nil
  then show ?case by simp
next
  case (Cons e es)
  obtain key v where e: "e = (key, v)" by (cases e)
  from Cons.prems have ok: "enhanced_within_capacity (snd (EnhancedMemoryAdapter_set (clk i) key v ttl t))"
    by (rule enhanced_capacity_set)
  show ?case
  proof (cases "EnhancedMemoryAdapter_set (clk i) key v ttl t")
    case (Pair r t')
    with ok have t': "enhanced_within_capacity t'" by simp
    show ?thesis
    proof (cases r)
      case (Inl err)
      with Pair e t' show ?thesis by simp
    next
      case (Inr u)
      with Pair e Cons.IH[OF t', of "Suc i"] show ?thesis by simp
    qed
  qed
qed

lemma enhanced_capacity_deleteMany_loop:
  "enhanced_within_capacity t \<Longrightarrow> enhanced_within_capacity (snd (enhanced_deleteMany_loop ks (b, t)))"
proof (induction ks arbitrary: b t)
  case Nil
  then show ?case by simp
next
  case (Cons k ks)
  from Cons.prems have ok: "enhanced_within_capacity (snd (EnhancedMemoryAdapter_delete k t))"
    by (rule enhanced_capacity_delete)
  show ?case
  proof (cases "EnhancedMemoryAdapter_delete k t")
    case (Pair d t')
    with ok have "enhanced_within_capacity t'" by simp
    from Cons.IH[OF this] Pair show ?thesis by simp
  qed
qed

lemma enhanced_reachable_within_capacity:
  "enhanced_reachable t \<Longrightarrow> enhanced_within_capacity t"
proof (induction rule: enhanced_reachable.induct)
  case (er_new config)
  show ?case by (simp add: enhanced_within_capacity_def EnhancedMemoryAdapter_new_def)
next
  case (er_get s now key)
  then show ?case by (simp add: enhanced_capacity_get)
next
  case (er_set s now key v ttl)
  then show ?case by (simp add: enhanced_capacity_set)
next
  case (er_delete s key)
  then show ?case by (simp add: enhanced_capacity_delete)
next
  case (er_exists s now key)
  then show ?case by (simp add: enhanced_capacity_exists)
next
  case (er_clear s)
  show ?case by (simp add: enhanced_within_capacity_def EnhancedMemoryAdapter_clear_def)
next
  case (er_mget s clk ks)
  from enhanced_capacity_mget_loop[OF er_mget.IH, of clk 0 ks] show ?case
    by (auto simp: EnhancedMemoryAdapter_mget_def split: prod.splits)
next
  case (er_mset s clk entries ttl)
  then show ?case by (simp add: EnhancedMemoryAdapter_mset_def enhanced_capacity_mset_loop)
next
  case (er_deleteMany s ks)
  then show ?case by (simp add: EnhancedMemoryAdapter_deleteMany_def enhanced_capacity_deleteMany_loop)
next
  case (er_cleanup s now)
  then show ?case by (simp add: enhanced_capacity_cleanup)
next
  case (er_destroy s)
  show ?case by (simp add: enhanced_within_capacity_def EnhancedMemoryAdapter_destroy_def)
qed

lemma demo_enhanced_full_reachable: "enhanced_reachable demo_enhanced_full"
  unfolding demo_enhanced_full_def by (intro enhanced_reachable.intros)

section \<open>What a successful set writes\<close>

lemma map_of_alist_update_other: "k \<noteq> key \<Longrightarrow> map_of (AList.update key e al) k = map_of al k"
  by (simp add: update_conv')

lemma set_success_writes:
  assumes "MemoryAdapter_set now key v ttl s = (Inr u, s')"
  shows "(\<exists>ser. serialize (serialization (options s)) v = Inr ser
            \<and> map_of (store s') key =
                Some \<lparr>entry_value = ser,
                      expires = expiresAt now (effectiveTTL (defaultTTL (options s)) ttl)\<rparr>)
       \<and> (\<forall>k. k \<noteq> key \<longrightarrow> map_of (store s') k = map_of (store s) k)"
proof -
  from set_success_store[OF assms] obtain ser where
    c: "serialize (serialization (options s)) v = Inr ser"
    and st: "store s' = AList.update key \<lparr>entry_value = ser,
            expires = expiresAt now (effectiveTTL (defaultTTL (options s)) ttl)\<rparr> (store s)"
    by (elim exE conjE)
  have m: "map_of (store s') key =
          Some \<lparr>entry_value = ser, expires = expiresAt now (effectiveTTL (defaultTTL (options s)) ttl)\<rparr>"
    by (simp only: st map_of_alist_update_same)
  have o: "\<forall>k. k \<noteq> key \<longrightarrow> map_of (store s') k = map_of (store s) k"
    by (simp only: st) (simp add: map_of_alist_update_other)
  from c m o show ?thesis by (intro conjI exI[of _ ser])
qed

lemma enhanced_set_success_writes:
  assumes "EnhancedMemoryAdapter_set now key v ttl t = (Inr u, t')"
  shows "(\<exists>ser. e_serialize (e_options t) v = Inr ser
            \<and> map_of (e_store t') key =
                Some \<lparr>entry_value = ser,
                      expires = expiresAt now (effectiveTTL (e_defaultTTL (e_options t)) ttl)\<rparr>)
       \<and> (\<forall>k. k \<noteq> key \<longrightarrow> map_of (e_store t') k = map_of (e_store t) k)"
proof -
  from enhanced_set_success_store[OF assms] obtain ser where
    c: "e_serialize (e_options t) v = Inr ser"
    and st: "e_store t' = AList.update key \<lparr>entry_value = ser,
            expires = expiresAt now (effectiveTTL (e_defaultTTL (e_options t)) ttl)\<rparr> (e_store t)"
    by (elim exE conjE)
  have m: "map_of (e_store t') key =
          Some \<lparr>entry_value = ser, expires = expiresAt now (effectiveTTL (e_defaultTTL (e_options t)) ttl)\<rparr>"
    by (simp only: st map_of_alist_update_same)
  have o: "\<forall>k. k \<noteq> key \<longrightarrow> map_of (e_store t') k = map_of (e_store t) k"
    by (simp only: st) (simp add: map_of_alist_update_other)
  from c m o show ?thesis by (intro conjI exI[of _ ser])
qed

lemma set_present_key_writes:
  assumes k: "key \<in> fst ` set (store s)" and c: "serialize (serialization (options s)) v = Inr ser"
  shows "fst (MemoryAdapter_set now key v ttl s) = Inr ()"
    and "length (store (snd (MemoryAdapter_set now key v ttl s))) = length (store s)"
    and "map_of (store (snd (MemoryAdapter_set now key v ttl s))) key =
           Some \<lparr>entry_value = ser,
                 expires = expiresAt now (effectiveTTL (defaultTTL (options s)) ttl)\<rparr>"
    and "\<forall>k. k \<noteq> key \<longrightarrow> map_of (store (snd (MemoryAdapter_set now key v ttl s))) k = map_of (store s) k"
proof -
  show f: "fst (MemoryAdapter_set now key v ttl s) = Inr ()" by (rule set_existing_key(1)[OF k c])
  show "length (store (snd (MemoryAdapter_set now key v ttl s))) = length (store s)"
    by (rule set_existing_key(2)[OF k c])
  have res: "MemoryAdapter_set now key v ttl s = (Inr (), snd (MemoryAdapter_set now key v ttl s))"
    by (rule prod_eqI) (simp_all add: f)
  from set_success_writes[OF res] c
  show "map_of (store (snd (MemoryAdapter_set now key v ttl s))) key =
           Some \<lparr>entry_value = ser,
                 expires = expiresAt now (effectiveTTL (defaultTTL (options s)) ttl)\<rparr>"
    by auto
  from set_success_writes[OF res]
  show "\<forall>k. k \<noteq> key \<longrightarrow> map_of (store (snd (MemoryAdapter_set now key v ttl s))) k = map_of (store s) k"
    by (rule conjunct2)
qed

lemma enhanced_set_present_key_writes:
  assumes k: "key \<in> fst ` set (e_store t)" and c: "e_serialize (e_options t) v = Inr ser"
  shows "fst (EnhancedMemoryAdapter_set now key v ttl t) = Inr ()"
    and "length (e_store (snd (EnhancedMemoryAdapter_set now key v ttl t))) = length (e_store t)"
    and "map_of (e_store (snd (EnhancedMemoryAdapter_set now key v ttl t))) key =
           Some \<lparr>entry_value = ser,
                 expires = expiresAt now (effectiveTTL (e_defaultTTL (e_options t)) ttl)\<rparr>"
    and "\<forall>k. k \<noteq> key \<longrightarrow>
           map_of (e_store (snd (EnhancedMemoryAdapter_set now key v ttl t))) k = map_of (e_store t) k"
proof -
  show f: "fst (EnhancedMemoryAdapter_set now key v ttl t) = Inr ()"
    by (rule enhanced_set_existing_key(1)[OF k c])
  show "length (e_store (snd (EnhancedMemoryAdapter_set now key v ttl t))) = length (e_store t)"
    by (rule enhanced_set_existing_key(2)[OF k c])
  have res: "EnhancedMemoryAdapter_set now key v ttl t
               = (Inr (), snd (EnhancedMemoryAdapter_set now key v ttl t))"
    by (rule prod_eqI) (simp_all add: f)
  from enhanced_set_success_writes[OF res] c
  show "map_of (e_store (snd (EnhancedMemoryAdapter_set now key v ttl t))) key =
           Some \<lparr>entry_value = ser,
                 expires = expiresAt now (effectiveTTL (e_defaultTTL (e_options t)) ttl)\<rparr>"
    by auto
  from enhanced_set_success_writes[OF res]
  show "\<forall>k. k \<noteq> key \<longrightarrow>
           map_of (e_store (snd (EnhancedMemoryAdapter_set now key v ttl t))) k = map_of (e_store t) k"
    by (rule conjunct2)
qed

section \<open>Clearing\<close>

text \<open>
  C7. \<open>clear()\<close> empties the map and sets each of the seven counters to zero, and a
  second \<open>clear()\<close> right after the first changes nothing.
\<close>

theorem clear_resets_and_is_idempotent:
  "store (MemoryAdapter_clear s) = []
   \<and> hits (stats (MemoryAdapter_clear s)) = 0
   \<and> misses (stats (MemoryAdapter_clear s)) = 0
   \<and> sets (stats (MemoryAdapter_clear s)) = 0
   \<and> deletes (stats (MemoryAdapter_clear s)) = 0
   \<and> expired (stats (MemoryAdapter_clear s)) = 0
   \<and> keys (stats (MemoryAdapter_clear s)) = 0
   \<and> memory (stats (MemoryAdapter_clear s)) = 0
   \<and> MemoryAdapter_clear (MemoryAdapter_clear s) = MemoryAdapter_clear s
   \<and> stats (MemoryAdapter_clear (MemoryAdapter_clear s)) = zeroStats"
  by (simp add: MemoryAdapter_clear_def resetStats_def zeroStats_def)

section \<open>Reading\<close>

text \<open>
  C3, as the specification states it, fails: reading an expired entry does not count a
  miss. At time 1100 the entry of \<open>temp\<close> (expiry 1050) has expired; \<open>get("temp")\<close>
  returns absent and counts one expiry, and the miss counter stays at 0, in the final
  adapter and in the event-emitting one.
\<close>

theorem get_expired_counts_no_miss:
  "map_of (store demo_temp) ''temp'' = Some \<lparr>entry_value = ''value'', expires = Some 1050\<rparr>
   \<and> expiry_passed 1100 \<lparr>entry_value = ''value'', expires = Some 1050\<rparr>
   \<and> fst (MemoryAdapter_get 1100 ''temp'' demo_temp) = Inr None
   \<and> expired (stats (snd (MemoryAdapter_get 1100 ''temp'' demo_temp))) = expired (stats demo_temp) + 1
   \<and> misses (stats (snd (MemoryAdapter_get 1100 ''temp'' demo_temp))) = misses (stats demo_temp)
   \<and> misses (stats (snd (MemoryAdapter_get 1100 ''temp'' demo_temp))) \<noteq> misses (stats demo_temp) + 1
   \<and> b_misses (b_stats (snd (BasicMemoryAdapter_get 1100 ''temp'' demo_basic_temp)))
        \<noteq> b_misses (b_stats demo_basic_temp) + 1"
proof -
  let ?e = "\<lparr>entry_value = ''value'', expires = Some 1050\<rparr>"
  have m: "map_of (store demo_temp) ''temp'' = Some ?e" by (simp add: demo_temp_store)
  have bm: "map_of (b_store demo_basic_temp) ''temp'' = Some ?e" by (simp add: demo_basic_temp_store)
  have x: "ttl_expired 1100 ?e" by (simp add: ttl_expired_def)
  have p: "expiry_passed 1100 ?e" by (simp add: expiry_passed_def)
  note g = get_expired_effect[OF m x]
  note b = basic_get_expired_effect[OF bm x]
  have 1: "misses (stats (snd (MemoryAdapter_get 1100 ''temp'' demo_temp))) \<noteq> misses (stats demo_temp) + 1"
    by (simp add: g(5))
  have 2: "b_misses (b_stats (snd (BasicMemoryAdapter_get 1100 ''temp'' demo_basic_temp)))
        \<noteq> b_misses (b_stats demo_basic_temp) + 1"
    by (simp add: b(4))
  show ?thesis
    by (intro conjI) (rule m p g(1) g(4) g(5) 1 2)+
qed

text \<open>
  C3, amended. For a key whose entry has a nonzero expiry timestamp in the past,
  \<open>get\<close> returns absent, deletes the entry and counts one expiry; the hit and miss
  counters stay as they were. For a key whose entry has no expiry, or one that has not
  passed, \<open>get\<close> counts one hit and changes nothing else. For an absent key \<open>get\<close> returns
  absent and counts one miss. The event-emitting adapter counts the same way.
\<close>

theorem get_counts:
  "(map_of (store s) key = Some entry \<and> expires entry = Some e \<and> e \<noteq> 0 \<and> e < now
      \<longrightarrow> fst (MemoryAdapter_get now key s) = Inr None
          \<and> store (snd (MemoryAdapter_get now key s)) = AList.delete key (store s)
          \<and> key \<notin> fst ` set (store (snd (MemoryAdapter_get now key s)))
          \<and> expired (stats (snd (MemoryAdapter_get now key s))) = expired (stats s) + 1
          \<and> misses (stats (snd (MemoryAdapter_get now key s))) = misses (stats s)
          \<and> hits (stats (snd (MemoryAdapter_get now key s))) = hits (stats s))
   \<and> (map_of (store s) key = Some entry \<and> \<not> expiry_passed now entry
      \<longrightarrow> store (snd (MemoryAdapter_get now key s)) = store s
          \<and> hits (stats (snd (MemoryAdapter_get now key s))) = hits (stats s) + 1
          \<and> misses (stats (snd (MemoryAdapter_get now key s))) = misses (stats s)
          \<and> expired (stats (snd (MemoryAdapter_get now key s))) = expired (stats s))
   \<and> (map_of (store s) key = None
      \<longrightarrow> fst (MemoryAdapter_get now key s) = Inr None
          \<and> store (snd (MemoryAdapter_get now key s)) = store s
          \<and> misses (stats (snd (MemoryAdapter_get now key s))) = misses (stats s) + 1
          \<and> hits (stats (snd (MemoryAdapter_get now key s))) = hits (stats s)
          \<and> expired (stats (snd (MemoryAdapter_get now key s))) = expired (stats s))
   \<and> (map_of (b_store b) key = Some entry \<and> expires entry = Some e \<and> e \<noteq> 0 \<and> e < now
      \<longrightarrow> fst (BasicMemoryAdapter_get now key b) = Inr None
          \<and> b_store (snd (BasicMemoryAdapter_get now key b)) = AList.delete key (b_store b)
          \<and> b_expired (b_stats (snd (BasicMemoryAdapter_get now key b))) = b_expired (b_stats b) + 1
          \<and> b_misses (b_stats (snd (BasicMemoryAdapter_get now key b))) = b_misses (b_stats b)
          \<and> b_hits (b_stats (snd (BasicMemoryAdapter_get now key b))) = b_hits (b_stats b))
   \<and> (map_of (b_store b) key = Some entry \<and> \<not> expiry_passed now entry
      \<longrightarrow> b_store (snd (BasicMemoryAdapter_get now key b)) = b_store b
          \<and> b_hits (b_stats (snd (BasicMemoryAdapter_get now key b))) = b_hits (b_stats b) + 1
          \<and> b_misses (b_stats (snd (BasicMemoryAdapter_get now key b))) = b_misses (b_stats b)
          \<and> b_expired (b_stats (snd (BasicMemoryAdapter_get now key b))) = b_expired (b_stats b))
   \<and> (map_of (b_store b) key = None
      \<longrightarrow> fst (BasicMemoryAdapter_get now key b) = Inr None
          \<and> b_store (snd (BasicMemoryAdapter_get now key b)) = b_store b
          \<and> b_misses (b_stats (snd (BasicMemoryAdapter_get now key b))) = b_misses (b_stats b) + 1
          \<and> b_hits (b_stats (snd (BasicMemoryAdapter_get now key b))) = b_hits (b_stats b)
          \<and> b_expired (b_stats (snd (BasicMemoryAdapter_get now key b))) = b_expired (b_stats b))"
proof (intro conjI impI)
  assume a: "map_of (store s) key = Some entry \<and> expires entry = Some e \<and> e \<noteq> 0 \<and> e < now"
  then have m: "map_of (store s) key = Some entry" by simp
  from a have x: "ttl_expired now entry" by (simp add: ttl_expired_def)
  note g = get_expired_effect[OF m x]
  show "fst (MemoryAdapter_get now key s) = Inr None" by (rule g(1))
  show "store (snd (MemoryAdapter_get now key s)) = AList.delete key (store s)" by (rule g(2))
  show "key \<notin> fst ` set (store (snd (MemoryAdapter_get now key s)))" by (rule g(3))
  show "expired (stats (snd (MemoryAdapter_get now key s))) = expired (stats s) + 1" by (rule g(4))
  show "misses (stats (snd (MemoryAdapter_get now key s))) = misses (stats s)" by (rule g(5))
  show "hits (stats (snd (MemoryAdapter_get now key s))) = hits (stats s)" by (rule g(6))
next
  assume a: "map_of (store s) key = Some entry \<and> \<not> expiry_passed now entry"
  then have m: "map_of (store s) key = Some entry" by simp
  from a have x: "\<not> ttl_expired now entry" by (simp add: not_passed_not_expired)
  note g = get_live_effect[OF m x]
  show "store (snd (MemoryAdapter_get now key s)) = store s" by (rule g(1))
  show "hits (stats (snd (MemoryAdapter_get now key s))) = hits (stats s) + 1" by (rule g(2))
  show "misses (stats (snd (MemoryAdapter_get now key s))) = misses (stats s)" by (rule g(3))
  show "expired (stats (snd (MemoryAdapter_get now key s))) = expired (stats s)" by (rule g(4))
next
  assume m: "map_of (store s) key = None"
  note g = get_absent_effect[OF m]
  show "fst (MemoryAdapter_get now key s) = Inr None" by (rule g(1))
  show "store (snd (MemoryAdapter_get now key s)) = store s" by (rule g(2))
  show "misses (stats (snd (MemoryAdapter_get now key s))) = misses (stats s) + 1" by (rule g(3))
  show "hits (stats (snd (MemoryAdapter_get now key s))) = hits (stats s)" by (rule g(4))
  show "expired (stats (snd (MemoryAdapter_get now key s))) = expired (stats s)" by (rule g(5))
next
  assume a: "map_of (b_store b) key = Some entry \<and> expires entry = Some e \<and> e \<noteq> 0 \<and> e < now"
  then have m: "map_of (b_store b) key = Some entry" by simp
  from a have x: "ttl_expired now entry" by (simp add: ttl_expired_def)
  note g = basic_get_expired_effect[OF m x]
  show "fst (BasicMemoryAdapter_get now key b) = Inr None" by (rule g(1))
  show "b_store (snd (BasicMemoryAdapter_get now key b)) = AList.delete key (b_store b)" by (rule g(2))
  show "b_expired (b_stats (snd (BasicMemoryAdapter_get now key b))) = b_expired (b_stats b) + 1"
    by (rule g(3))
  show "b_misses (b_stats (snd (BasicMemoryAdapter_get now key b))) = b_misses (b_stats b)"
    by (rule g(4))
  show "b_hits (b_stats (snd (BasicMemoryAdapter_get now key b))) = b_hits (b_stats b)"
    by (rule g(5))
next
  assume a: "map_of (b_store b) key = Some entry \<and> \<not> expiry_passed now entry"
  then have m: "map_of (b_store b) key = Some entry" by simp
  from a have x: "\<not> ttl_expired now entry" by (simp add: not_passed_not_expired)
  note g = basic_get_live_effect[OF m x]
  show "b_store (snd (BasicMemoryAdapter_get now key b)) = b_store b" by (rule g(1))
  show "b_hits (b_stats (snd (BasicMemoryAdapter_get now key b))) = b_hits (b_stats b) + 1"
    by (rule g(2))
  show "b_misses (b_stats (snd (BasicMemoryAdapter_get now key b))) = b_misses (b_stats b)"
    by (rule g(3))
  show "b_expired (b_stats (snd (BasicMemoryAdapter_get now key b))) = b_expired (b_stats b)"
    by (rule g(4))
next
  assume m: "map_of (b_store b) key = None"
  note g = basic_get_absent_effect[OF m]
  show "fst (BasicMemoryAdapter_get now key b) = Inr None" by (rule g(1))
  show "b_store (snd (BasicMemoryAdapter_get now key b)) = b_store b" by (rule g(2))
  show "b_misses (b_stats (snd (BasicMemoryAdapter_get now key b))) = b_misses (b_stats b) + 1"
    by (rule g(3))
  show "b_hits (b_stats (snd (BasicMemoryAdapter_get now key b))) = b_hits (b_stats b)"
    by (rule g(4))
  show "b_expired (b_stats (snd (BasicMemoryAdapter_get now key b))) = b_expired (b_stats b)"
    by (rule g(5))
qed

theorem get_counts_witness:
  "fst (MemoryAdapter_get 1100 ''temp'' demo_temp) = Inr None
   \<and> ''temp'' \<notin> fst ` set (store (snd (MemoryAdapter_get 1100 ''temp'' demo_temp)))
   \<and> expired (stats (snd (MemoryAdapter_get 1100 ''temp'' demo_temp))) = 1
   \<and> misses (stats (snd (MemoryAdapter_get 1100 ''temp'' demo_temp))) = 0
   \<and> hits (stats (snd (MemoryAdapter_get 1040 ''temp'' demo_temp))) = 1
   \<and> hits (stats (snd (MemoryAdapter_get 1100 ''key1'' demo_temp))) = 1
   \<and> misses (stats (snd (MemoryAdapter_get 1100 ''nope'' demo_temp))) = 1
   \<and> b_expired (b_stats (snd (BasicMemoryAdapter_get 1100 ''temp'' demo_basic_temp))) = 1
   \<and> b_misses (b_stats (snd (BasicMemoryAdapter_get 1100 ''temp'' demo_basic_temp))) = 0
   \<and> b_misses (b_stats (snd (BasicMemoryAdapter_get 1100 ''nope'' demo_basic_temp))) = 1"
proof -
  let ?e = "\<lparr>entry_value = ''value'', expires = Some 1050\<rparr>"
  let ?k = "\<lparr>entry_value = ''value1'', expires = None\<rparr>"
  have h_exp: "map_of (store demo_temp) ''temp'' = Some ?e \<and> expires ?e = Some 1050
                 \<and> (1050::int) \<noteq> 0 \<and> (1050::int) < 1100"
    by (simp add: demo_temp_store)
  have h_live: "map_of (store demo_temp) ''temp'' = Some ?e \<and> \<not> expiry_passed 1040 ?e"
    by (simp add: demo_temp_store expiry_passed_def)
  have h_perm: "map_of (store demo_temp) ''key1'' = Some ?k \<and> \<not> expiry_passed 1100 ?k"
    by (simp add: demo_temp_store expiry_passed_def)
  have h_abs: "map_of (store demo_temp) ''nope'' = None"
    by (simp add: demo_temp_store)
  have b_exp: "map_of (b_store demo_basic_temp) ''temp'' = Some ?e \<and> expires ?e = Some 1050
                 \<and> (1050::int) \<noteq> 0 \<and> (1050::int) < 1100"
    by (simp add: demo_basic_temp_store)
  have b_abs: "map_of (b_store demo_basic_temp) ''nope'' = None"
    by (simp add: demo_basic_temp_store)
  note t_exp = get_counts[of demo_temp "''temp''" ?e 1050 1100 demo_basic_temp,
                   THEN conjunct1, THEN mp, OF h_exp]
  note t_live = get_counts[of demo_temp "''temp''" ?e 1050 1040 demo_basic_temp,
                   THEN conjunct2, THEN conjunct1, THEN mp, OF h_live]
  note t_perm = get_counts[of demo_temp "''key1''" ?k 1050 1100 demo_basic_temp,
                   THEN conjunct2, THEN conjunct1, THEN mp, OF h_perm]
  note t_abs = get_counts[of demo_temp "''nope''" ?e 1050 1100 demo_basic_temp,
                   THEN conjunct2, THEN conjunct2, THEN conjunct1, THEN mp, OF h_abs]
  note tb_exp = get_counts[of demo_temp "''temp''" ?e 1050 1100 demo_basic_temp,
                   THEN conjunct2, THEN conjunct2, THEN conjunct2, THEN conjunct1, THEN mp, OF b_exp]
  note tb_abs = get_counts[of demo_temp "''nope''" ?e 1050 1100 demo_basic_temp,
                   THEN conjunct2, THEN conjunct2, THEN conjunct2, THEN conjunct2, THEN conjunct2,
                   THEN mp, OF b_abs]
  have 1: "fst (MemoryAdapter_get 1100 ''temp'' demo_temp) = Inr None"
    using t_exp by simp
  have 2: "''temp'' \<notin> fst ` set (store (snd (MemoryAdapter_get 1100 ''temp'' demo_temp)))"
    by (rule t_exp[THEN conjunct2, THEN conjunct2, THEN conjunct1])
  have 3: "expired (stats (snd (MemoryAdapter_get 1100 ''temp'' demo_temp))) = 1"
    using t_exp by (simp add: demo_temp_store)
  have 4: "misses (stats (snd (MemoryAdapter_get 1100 ''temp'' demo_temp))) = 0"
    using t_exp by (simp add: demo_temp_store)
  have 5: "hits (stats (snd (MemoryAdapter_get 1040 ''temp'' demo_temp))) = 1"
    using t_live by (simp add: demo_temp_store)
  have 6: "hits (stats (snd (MemoryAdapter_get 1100 ''key1'' demo_temp))) = 1"
    using t_perm by (simp add: demo_temp_store)
  have 7: "misses (stats (snd (MemoryAdapter_get 1100 ''nope'' demo_temp))) = 1"
    using t_abs by (simp add: demo_temp_store)
  have 8: "b_expired (b_stats (snd (BasicMemoryAdapter_get 1100 ''temp'' demo_basic_temp))) = 1"
    using tb_exp by (simp add: demo_basic_temp_store)
  have 9: "b_misses (b_stats (snd (BasicMemoryAdapter_get 1100 ''temp'' demo_basic_temp))) = 0"
    using tb_exp by (simp add: demo_basic_temp_store)
  have 10: "b_misses (b_stats (snd (BasicMemoryAdapter_get 1100 ''nope'' demo_basic_temp))) = 1"
    using tb_abs by (simp add: demo_basic_temp_store)
  show ?thesis
    by (intro conjI) (rule 1 2 3 4 5 6 7 8 9 10)+
qed

section \<open>Time to live\<close>



section \<open>Batches\<close>

text \<open>
  C6. \<open>mset\<close> applies the sets in list order: on the empty list it succeeds and changes
  nothing, and on a list extended by one pair it does what it does on the list and then, if
  that succeeded, sets the new pair. It fails with an error exactly when some position \<open>i\<close>
  exists such that the batch of the pairs before \<open>i\<close> succeeds and the set of the pair at
  \<open>i\<close> fails with that error; the adapter is then left in the state the batch of the pairs
  before \<open>i\<close> produced, whatever follows position \<open>i\<close>. In the state a successful batch
  leaves, every key of the batch holds the serialization of the last value the batch gave
  it, and every other key is as it was.
\<close>

theorem mset_stops_at_first_failure:
  "MemoryAdapter_mset clk [] ttl s = (Inr (), s)
   \<and> MemoryAdapter_mset clk (pre @ [(key, v)]) ttl s =
       (case MemoryAdapter_mset clk pre ttl s of
          (Inl err, mid) \<Rightarrow> (Inl err, mid)
        | (Inr u, mid) \<Rightarrow> MemoryAdapter_set (clk (length pre)) key v ttl mid)
   \<and> ((MemoryAdapter_mset clk es ttl s = (Inl e, s')) =
        (\<exists>i<length es. MemoryAdapter_mset clk (take i es) ttl s = (Inr (), s')
            \<and> fst (MemoryAdapter_set (clk i) (fst (es ! i)) (snd (es ! i)) ttl s') = Inl e))
   \<and> (MemoryAdapter_mset clk pre ttl s = (Inr (), mid) \<longrightarrow>
        (\<forall>k w. map_of (rev pre) k = Some w \<longrightarrow>
            (\<exists>ser. serialize (serialization (options s)) w = Inr ser
                 \<and> map_option entry_value (map_of (store mid) k) = Some ser))
        \<and> (\<forall>k. k \<notin> fst ` set pre \<longrightarrow> map_of (store mid) k = map_of (store s) k))"
proof (intro conjI impI)
  show "MemoryAdapter_mset clk [] ttl s = (Inr (), s)"
    by (simp add: MemoryAdapter_mset_def)
next
  obtain r mid where m: "mset_loop clk 0 pre ttl s = (r, mid)"
    by (cases "mset_loop clk 0 pre ttl s")
  obtain r2 s2 where st: "MemoryAdapter_set (clk (length pre)) key v ttl mid = (r2, s2)"
    by (cases "MemoryAdapter_set (clk (length pre)) key v ttl mid")
  show "MemoryAdapter_mset clk (pre @ [(key, v)]) ttl s =
       (case MemoryAdapter_mset clk pre ttl s of
          (Inl err, mid) \<Rightarrow> (Inl err, mid)
        | (Inr u, mid) \<Rightarrow> MemoryAdapter_set (clk (length pre)) key v ttl mid)"
  proof (cases r)
    case (Inl err)
    with m show ?thesis by (simp add: MemoryAdapter_mset_def mset_loop_append)
  next
    case (Inr u)
    show ?thesis
    proof (cases r2)
      case (Inl err)
      with m Inr st show ?thesis by (simp add: MemoryAdapter_mset_def mset_loop_append)
    next
      case (Inr u2)
      with m \<open>r = Inr u\<close> st show ?thesis by (simp add: MemoryAdapter_mset_def mset_loop_append)
    qed
  qed
next
  show "(MemoryAdapter_mset clk es ttl s = (Inl e, s')) =
        (\<exists>i<length es. MemoryAdapter_mset clk (take i es) ttl s = (Inr (), s')
            \<and> fst (MemoryAdapter_set (clk i) (fst (es ! i)) (snd (es ! i)) ttl s') = Inl e)"
  proof
    assume "MemoryAdapter_mset clk es ttl s = (Inl e, s')"
    then have "mset_loop clk 0 es ttl s = (Inl e, s')" by (simp only: MemoryAdapter_mset_def)
    from mset_loop_failure[OF this] obtain j where j: "j < length es"
      and p: "mset_loop clk 0 (take j es) ttl s = (Inr (), s')"
      and f: "MemoryAdapter_set (clk (0 + j)) (fst (es ! j)) (snd (es ! j)) ttl s' = (Inl e, s')"
      by (elim exE conjE)
    from j p f have "j < length es \<and> MemoryAdapter_mset clk (take j es) ttl s = (Inr (), s')
            \<and> fst (MemoryAdapter_set (clk j) (fst (es ! j)) (snd (es ! j)) ttl s') = Inl e"
      by (simp add: MemoryAdapter_mset_def)
    then show "\<exists>i<length es. MemoryAdapter_mset clk (take i es) ttl s = (Inr (), s')
            \<and> fst (MemoryAdapter_set (clk i) (fst (es ! i)) (snd (es ! i)) ttl s') = Inl e"
      by (rule exI[of _ j])
  next
    assume "\<exists>i<length es. MemoryAdapter_mset clk (take i es) ttl s = (Inr (), s')
            \<and> fst (MemoryAdapter_set (clk i) (fst (es ! i)) (snd (es ! i)) ttl s') = Inl e"
    then obtain i where i: "i < length es"
      and p: "MemoryAdapter_mset clk (take i es) ttl s = (Inr (), s')"
      and f: "fst (MemoryAdapter_set (clk i) (fst (es ! i)) (snd (es ! i)) ttl s') = Inl e"
      by (elim exE conjE)
    from p have p': "mset_loop clk 0 (take i es) ttl s = (Inr (), s')"
      by (simp only: MemoryAdapter_mset_def)
    show "MemoryAdapter_mset clk es ttl s = (Inl e, s')"
      by (simp only: MemoryAdapter_mset_def mset_fails_at[OF i p' f])
  qed
next
  assume "MemoryAdapter_mset clk pre ttl s = (Inr (), mid)"
  then have ok: "mset_loop clk 0 pre ttl s = (Inr (), mid)" by (simp only: MemoryAdapter_mset_def)
  show "\<forall>k w. map_of (rev pre) k = Some w \<longrightarrow>
            (\<exists>ser. serialize (serialization (options s)) w = Inr ser
                 \<and> map_option entry_value (map_of (store mid) k) = Some ser)"
    by (rule mset_loop_committed[OF ok, THEN conjunct2, THEN conjunct2])
next
  assume "MemoryAdapter_mset clk pre ttl s = (Inr (), mid)"
  then have ok: "mset_loop clk 0 pre ttl s = (Inr (), mid)" by (simp only: MemoryAdapter_mset_def)
  show "\<forall>k. k \<notin> fst ` set pre \<longrightarrow> map_of (store mid) k = map_of (store s) k"
    by (rule mset_loop_committed[OF ok, THEN conjunct2, THEN conjunct1])
qed


theorem mset_stops_at_first_failure_witness:
  "MemoryAdapter_mset int [(''a'', ''1''), (''b'', ''2''), (''c'', ''3''), (''d'', ''4'')] None demo_empty
     = (Inl (MaxKeysLimit 2), demo_full)
   \<and> map_option entry_value (map_of (store demo_full) ''a'') = Some ''1''
   \<and> map_option entry_value (map_of (store demo_full) ''b'') = Some ''2''
   \<and> map_of (store demo_full) ''c'' = None
   \<and> map_of (store demo_full) ''d'' = None"
proof -
  let ?es = "[(''a'', ''1''), (''b'', ''2''), (''c'', ''3''), (''d'', ''4'')]"
  let ?pre = "[(''a'', ''1''), (''b'', ''2'')]"
  note pre = demo_mset_prefix
  have c: "fst (MemoryAdapter_set 2 ''c'' ''3'' None demo_full) = Inl (MaxKeysLimit 2)"
    by (simp add: set_new_key_at_capacity demo_full_store demo_config_simps)
  have tk: "take 2 ?es = ?pre" and nth: "?es ! 2 = (''c'', ''3'')" and len: "(2::nat) < length ?es"
    and i2: "int 2 = 2"
    by simp_all
  have i: "(2::nat) < length ?es \<and> MemoryAdapter_mset int (take 2 ?es) None demo_empty = (Inr (), demo_full)
        \<and> fst (MemoryAdapter_set (int 2) (fst (?es ! 2)) (snd (?es ! 2)) None demo_full) = Inl (MaxKeysLimit 2)"
    by (simp only: tk nth len i2 pre c fst_conv snd_conv simp_thms)
  note inst = mset_stops_at_first_failure[of int None demo_empty ?pre _ _ ?es "MaxKeysLimit 2" demo_full demo_full]
  have 1: "MemoryAdapter_mset int ?es None demo_empty = (Inl (MaxKeysLimit 2), demo_full)"
    by (rule inst[THEN conjunct2, THEN conjunct2, THEN conjunct1, THEN iffD2]) (rule exI[of _ 2], rule i)
  note kept = inst[THEN conjunct2, THEN conjunct2, THEN conjunct2, THEN mp, OF pre]
  have 2: "map_option entry_value (map_of (store demo_full) ''a'') = Some ''1''"
    using kept[THEN conjunct1, THEN spec, THEN spec, THEN mp, of "''a''" "''1''"]
    by (simp add: demo_empty_simps demo_config_simps)
  have 3: "map_option entry_value (map_of (store demo_full) ''b'') = Some ''2''"
    using kept[THEN conjunct1, THEN spec, THEN spec, THEN mp, of "''b''" "''2''"]
    by (simp add: demo_empty_simps demo_config_simps)
  have 4: "map_of (store demo_full) ''c'' = None"
    using kept[THEN conjunct2, THEN spec, THEN mp, of "''c''"] by (simp add: demo_empty_simps)
  have 5: "map_of (store demo_full) ''d'' = None"
    using kept[THEN conjunct2, THEN spec, THEN mp, of "''d''"] by (simp add: demo_empty_simps)
  show ?thesis
    by (intro conjI) (rule 1 2 3 4 5)+
qed

section \<open>Sweeping\<close>

text \<open>
  C8. The sweep misses an entry whose expiry timestamp is the number 0. It tests
  \<^verbatim>\<open>entry.expires && now > entry.expires\<close>, which asks at once whether the entry has
  an expiry and whether it has passed, and 0 is falsy. After \<open>set("k", "v", -1000)\<close> at
  time 1000 the entry of \<open>k\<close> expires at 0; at time 2000 that timestamp has passed, and
  \<open>cleanup()\<close> removes nothing, returns 0 and leaves the expired counter at 0, in the final
  adapter and in \<open>EnhancedMemoryAdapter\<close>.
\<close>

theorem cleanup_keeps_expiry_zero:
  "map_of (store demo_epoch) ''k'' = Some \<lparr>entry_value = ''v'', expires = Some 0\<rparr>
   \<and> expiry_passed 2000 \<lparr>entry_value = ''v'', expires = Some 0\<rparr>
   \<and> fst (MemoryAdapter_cleanup 2000 demo_epoch) = 0
   \<and> map_of (store (snd (MemoryAdapter_cleanup 2000 demo_epoch))) ''k''
        = Some \<lparr>entry_value = ''v'', expires = Some 0\<rparr>
   \<and> expired (stats (snd (MemoryAdapter_cleanup 2000 demo_epoch))) = 0
   \<and> map_of (e_store demo_enhanced_epoch) ''k'' = Some \<lparr>entry_value = ''v'', expires = Some 0\<rparr>
   \<and> fst (EnhancedMemoryAdapter_cleanup 2000 demo_enhanced_epoch) = 0
   \<and> map_of (e_store (snd (EnhancedMemoryAdapter_cleanup 2000 demo_enhanced_epoch))) ''k''
        = Some \<lparr>entry_value = ''v'', expires = Some 0\<rparr>"
proof -
  have 1: "map_of (store demo_epoch) ''k'' = Some \<lparr>entry_value = ''v'', expires = Some 0\<rparr>"
    by (simp add: demo_epoch_store)
  have 2: "expiry_passed 2000 \<lparr>entry_value = ''v'', expires = Some 0\<rparr>"
    by (simp add: expiry_passed_def)
  have loop: "cleanup_loop 2000 (store demo_epoch) (demo_epoch, 0) = (demo_epoch, 0)"
    by (simp add: demo_epoch_store ttl_expired_def)
  have res: "MemoryAdapter_cleanup 2000 demo_epoch = (0, updateStats demo_epoch)"
    by (simp add: MemoryAdapter_cleanup_def loop)
  have 3: "fst (MemoryAdapter_cleanup 2000 demo_epoch) = 0"
    by (simp add: res)
  have 4: "map_of (store (snd (MemoryAdapter_cleanup 2000 demo_epoch))) ''k''
        = Some \<lparr>entry_value = ''v'', expires = Some 0\<rparr>"
    by (simp add: res updateStats_def demo_epoch_store)
  have 5: "expired (stats (snd (MemoryAdapter_cleanup 2000 demo_epoch))) = 0"
    by (simp add: res updateStats_def demo_epoch_store)
  have 6: "map_of (e_store demo_enhanced_epoch) ''k'' = Some \<lparr>entry_value = ''v'', expires = Some 0\<rparr>"
    by (simp add: demo_enhanced_epoch_store)
  have eloop: "enhanced_cleanup_loop 2000 (e_store demo_enhanced_epoch) (demo_enhanced_epoch, 0)
                 = (demo_enhanced_epoch, 0)"
    by (simp add: demo_enhanced_epoch_store ttl_expired_def)
  have eres: "EnhancedMemoryAdapter_cleanup 2000 demo_enhanced_epoch = (0, demo_enhanced_epoch)"
    by (simp add: EnhancedMemoryAdapter_cleanup_def eloop)
  have 7: "fst (EnhancedMemoryAdapter_cleanup 2000 demo_enhanced_epoch) = 0"
    by (simp add: eres)
  have 8: "map_of (e_store (snd (EnhancedMemoryAdapter_cleanup 2000 demo_enhanced_epoch))) ''k''
        = Some \<lparr>entry_value = ''v'', expires = Some 0\<rparr>"
    by (simp add: eres demo_enhanced_epoch_store)
  show ?thesis
    by (intro conjI) (rule 1 2 3 4 5 6 7 8)+
qed

text \<open>
  On every other entry the sweep does what is asked of it. \<open>cleanup()\<close> returns the
  number of entries it removed and adds that number to the expired counter. Every entry
  whose expiry timestamp has not passed, or that has none, stays in place; every entry
  whose expiry timestamp is nonzero and has passed is removed; and the only entries with
  a passed expiry that remain are those the test above misreads. This holds of the final
  adapter and of \<open>EnhancedMemoryAdapter\<close>, for every map (the keys of a map are distinct).
\<close>

theorem cleanup_sweeps:
  "(distinct (map fst (store s)) \<longrightarrow>
      fst (MemoryAdapter_cleanup now s)
         = length (store s) - length (store (snd (MemoryAdapter_cleanup now s)))
    \<and> expired (stats (snd (MemoryAdapter_cleanup now s)))
         = expired (stats s) + fst (MemoryAdapter_cleanup now s)
    \<and> (\<forall>k entry. map_of (store s) k = Some entry \<and> \<not> expiry_passed now entry
          \<longrightarrow> map_of (store (snd (MemoryAdapter_cleanup now s))) k = Some entry)
    \<and> (\<forall>k entry. map_of (store s) k = Some entry \<and> expiry_passed now entry \<and> expires entry \<noteq> Some 0
          \<longrightarrow> map_of (store (snd (MemoryAdapter_cleanup now s))) k = None)
    \<and> (\<forall>k entry. map_of (store (snd (MemoryAdapter_cleanup now s))) k = Some entry
          \<longrightarrow> map_of (store s) k = Some entry
              \<and> (\<not> expiry_passed now entry \<or> expires entry = Some 0)))
   \<and> (distinct (map fst (e_store t)) \<longrightarrow>
      fst (EnhancedMemoryAdapter_cleanup now t)
         = length (e_store t) - length (e_store (snd (EnhancedMemoryAdapter_cleanup now t)))
    \<and> e_expired (e_stats (snd (EnhancedMemoryAdapter_cleanup now t)))
         = e_expired (e_stats t) + fst (EnhancedMemoryAdapter_cleanup now t)
    \<and> (\<forall>k entry. map_of (e_store t) k = Some entry \<and> \<not> expiry_passed now entry
          \<longrightarrow> map_of (e_store (snd (EnhancedMemoryAdapter_cleanup now t))) k = Some entry)
    \<and> (\<forall>k entry. map_of (e_store t) k = Some entry \<and> expiry_passed now entry \<and> expires entry \<noteq> Some 0
          \<longrightarrow> map_of (e_store (snd (EnhancedMemoryAdapter_cleanup now t))) k = None)
    \<and> (\<forall>k entry. map_of (e_store (snd (EnhancedMemoryAdapter_cleanup now t))) k = Some entry
          \<longrightarrow> map_of (e_store t) k = Some entry
              \<and> (\<not> expiry_passed now entry \<or> expires entry = Some 0)))"
proof (intro conjI impI)
  assume d: "distinct (map fst (store s))"
  note r = cleanup_result[OF d, of now]
  note sw = swept_entries[OF d r(1)]
  show "fst (MemoryAdapter_cleanup now s)
         = length (store s) - length (store (snd (MemoryAdapter_cleanup now s)))"
    by (simp only: r(1) r(2)) (rule length_filter_compl)
  show "expired (stats (snd (MemoryAdapter_cleanup now s)))
         = expired (stats s) + fst (MemoryAdapter_cleanup now s)"
    by (simp only: r(2) r(3))
  show "\<forall>k entry. map_of (store s) k = Some entry \<and> \<not> expiry_passed now entry
          \<longrightarrow> map_of (store (snd (MemoryAdapter_cleanup now s))) k = Some entry"
    by (rule sw[THEN conjunct1])
  show "\<forall>k entry. map_of (store s) k = Some entry \<and> expiry_passed now entry \<and> expires entry \<noteq> Some 0
          \<longrightarrow> map_of (store (snd (MemoryAdapter_cleanup now s))) k = None"
    by (rule sw[THEN conjunct2, THEN conjunct1])
  show "\<forall>k entry. map_of (store (snd (MemoryAdapter_cleanup now s))) k = Some entry
          \<longrightarrow> map_of (store s) k = Some entry
              \<and> (\<not> expiry_passed now entry \<or> expires entry = Some 0)"
    by (rule sw[THEN conjunct2, THEN conjunct2])
next
  assume d: "distinct (map fst (e_store t))"
  note r = enhanced_cleanup_result[OF d, of now]
  note sw = swept_entries[OF d r(1)]
  show "fst (EnhancedMemoryAdapter_cleanup now t)
         = length (e_store t) - length (e_store (snd (EnhancedMemoryAdapter_cleanup now t)))"
    by (simp only: r(1) r(2)) (rule length_filter_compl)
  show "e_expired (e_stats (snd (EnhancedMemoryAdapter_cleanup now t)))
         = e_expired (e_stats t) + fst (EnhancedMemoryAdapter_cleanup now t)"
    by (simp only: r(2) r(3))
  show "\<forall>k entry. map_of (e_store t) k = Some entry \<and> \<not> expiry_passed now entry
          \<longrightarrow> map_of (e_store (snd (EnhancedMemoryAdapter_cleanup now t))) k = Some entry"
    by (rule sw[THEN conjunct1])
  show "\<forall>k entry. map_of (e_store t) k = Some entry \<and> expiry_passed now entry \<and> expires entry \<noteq> Some 0
          \<longrightarrow> map_of (e_store (snd (EnhancedMemoryAdapter_cleanup now t))) k = None"
    by (rule sw[THEN conjunct2, THEN conjunct1])
  show "\<forall>k entry. map_of (e_store (snd (EnhancedMemoryAdapter_cleanup now t))) k = Some entry
          \<longrightarrow> map_of (e_store t) k = Some entry
              \<and> (\<not> expiry_passed now entry \<or> expires entry = Some 0)"
    by (rule sw[THEN conjunct2, THEN conjunct2])
qed

theorem cleanup_sweeps_witness:
  "map_of (store (snd (MemoryAdapter_cleanup 1100 demo_temp))) ''temp'' = None
   \<and> map_of (store (snd (MemoryAdapter_cleanup 1100 demo_temp))) ''key1''
        = Some \<lparr>entry_value = ''value1'', expires = None\<rparr>
   \<and> map_of (store (snd (MemoryAdapter_cleanup 1040 demo_temp))) ''temp''
        = Some \<lparr>entry_value = ''value'', expires = Some 1050\<rparr>
   \<and> expired (stats (snd (MemoryAdapter_cleanup 1100 demo_temp)))
        = fst (MemoryAdapter_cleanup 1100 demo_temp)
   \<and> map_of (e_store (snd (EnhancedMemoryAdapter_cleanup 1100 demo_enhanced_temp))) ''temp'' = None
   \<and> map_of (e_store (snd (EnhancedMemoryAdapter_cleanup 1100 demo_enhanced_temp))) ''key1''
        = Some \<lparr>entry_value = ''value1'', expires = None\<rparr>"
proof -
  let ?live = "\<lparr>entry_value = ''value1'', expires = None\<rparr>"
  let ?temp = "\<lparr>entry_value = ''value'', expires = Some 1050\<rparr>"
  have d: "distinct (map fst (store demo_temp))" by (simp add: demo_temp_store)
  have ed: "distinct (map fst (e_store demo_enhanced_temp))" by (simp add: demo_enhanced_temp_store)
  note f = cleanup_sweeps[THEN conjunct1, THEN mp, OF d]
  note e = cleanup_sweeps[THEN conjunct2, THEN mp, OF ed]
  have 1: "map_of (store (snd (MemoryAdapter_cleanup 1100 demo_temp))) ''temp'' = None"
    by (rule f[THEN conjunct2, THEN conjunct2, THEN conjunct2, THEN conjunct1, THEN spec, THEN spec,
               THEN mp, of _ ?temp])
       (simp add: demo_temp_store expiry_passed_def)
  have 2: "map_of (store (snd (MemoryAdapter_cleanup 1100 demo_temp))) ''key1'' = Some ?live"
    by (rule f[THEN conjunct2, THEN conjunct2, THEN conjunct1, THEN spec, THEN spec, THEN mp])
       (simp add: demo_temp_store expiry_passed_def)
  have 3: "map_of (store (snd (MemoryAdapter_cleanup 1040 demo_temp))) ''temp'' = Some ?temp"
    by (rule f[THEN conjunct2, THEN conjunct2, THEN conjunct1, THEN spec, THEN spec, THEN mp])
       (simp add: demo_temp_store expiry_passed_def)
  have 4: "expired (stats (snd (MemoryAdapter_cleanup 1100 demo_temp)))
        = fst (MemoryAdapter_cleanup 1100 demo_temp)"
    using f[of 1100, THEN conjunct2, THEN conjunct1] by (simp add: demo_temp_store)
  have 5: "map_of (e_store (snd (EnhancedMemoryAdapter_cleanup 1100 demo_enhanced_temp))) ''temp'' = None"
    by (rule e[THEN conjunct2, THEN conjunct2, THEN conjunct2, THEN conjunct1, THEN spec, THEN spec,
               THEN mp, of _ ?temp])
       (simp add: demo_enhanced_temp_store expiry_passed_def)
  have 6: "map_of (e_store (snd (EnhancedMemoryAdapter_cleanup 1100 demo_enhanced_temp))) ''key1'' = Some ?live"
    by (rule e[THEN conjunct2, THEN conjunct2, THEN conjunct1, THEN spec, THEN spec, THEN mp])
       (simp add: demo_enhanced_temp_store expiry_passed_def)
  show ?thesis
    by (intro conjI) (rule 1 2 3 4 5 6)+
qed

section \<open>Negative time to live\<close>




section \<open>Listing the keys\<close>

text \<open>
  C5. \<open>keys()\<close> of the final adapter and of \<open>EnhancedMemoryAdapter\<close> lists the map as it
  is; it reads no clock and sweeps nothing. In the scenario of the repository's test
  \<open>should get all keys after cleanup\<close> (\<open>key1\<close> without expiry, \<open>temp\<close> expiring at 1050,
  no cleanup timer, the clock at 1100) the entry of \<open>temp\<close> has expired and both list
  \<open>temp\<close>, where the test expects \<open>key1\<close> alone. The event-emitting adapter sweeps first
  and lists \<open>key1\<close> alone.
\<close>

theorem keys_lists_expired_key:
  "map_of (store demo_temp) ''temp'' = Some \<lparr>entry_value = ''value'', expires = Some 1050\<rparr>
   \<and> expiry_passed 1100 \<lparr>entry_value = ''value'', expires = Some 1050\<rparr>
   \<and> MemoryAdapter_keys demo_temp = [''key1'', ''temp'']
   \<and> map_of (e_store demo_enhanced_temp) ''temp'' = Some \<lparr>entry_value = ''value'', expires = Some 1050\<rparr>
   \<and> EnhancedMemoryAdapter_keys demo_enhanced_temp = [''key1'', ''temp'']
   \<and> map_of (b_store demo_basic_temp) ''temp'' = Some \<lparr>entry_value = ''value'', expires = Some 1050\<rparr>
   \<and> fst (BasicMemoryAdapter_keys 1100 demo_basic_temp) = [''key1'']"
proof -
  have 1: "map_of (store demo_temp) ''temp'' = Some \<lparr>entry_value = ''value'', expires = Some 1050\<rparr>"
    by (simp add: demo_temp_store)
  have 2: "expiry_passed 1100 \<lparr>entry_value = ''value'', expires = Some 1050\<rparr>"
    by (simp add: expiry_passed_def)
  have 3: "MemoryAdapter_keys demo_temp = [''key1'', ''temp'']"
    by (simp add: MemoryAdapter_keys_def demo_temp_store)
  have 4: "map_of (e_store demo_enhanced_temp) ''temp'' = Some \<lparr>entry_value = ''value'', expires = Some 1050\<rparr>"
    by (simp add: demo_enhanced_temp_store)
  have 5: "EnhancedMemoryAdapter_keys demo_enhanced_temp = [''key1'', ''temp'']"
    by (simp add: EnhancedMemoryAdapter_keys_def demo_enhanced_temp_store)
  have 6: "map_of (b_store demo_basic_temp) ''temp'' = Some \<lparr>entry_value = ''value'', expires = Some 1050\<rparr>"
    by (simp add: demo_basic_temp_store)
  show ?thesis
    by (intro conjI) (rule 1 2 3 4 5 6 basic_keys_demo)+
qed

section \<open>The default codec\<close>

text \<open>
  C9. Both versions of the default codec serialize \<open>undefined\<close> to the string \<open>null\<close>,
  the encoding of \<open>null\<close>, and \<open>defaultDeserialize\<close> reads that string as \<open>null\<close>. An
  adapter with the default codec that has room for the key therefore stores \<open>undefined\<close>
  without error, under the serialized value \<open>null\<close>, and a \<open>get\<close> that finds the entry
  unexpired returns \<open>null\<close>.
\<close>

theorem undefined_is_stored_as_null:
  "defaultSerialize JUndefined = ''null''
   \<and> defaultSerialize JUndefined = defaultSerialize JNull
   \<and> defaultSerialize_recursive JUndefined = ''null''
   \<and> defaultSerialize_recursive JUndefined = defaultSerialize_recursive JNull
   \<and> defaultDeserialize (defaultSerialize JUndefined) = Inr JNull
   \<and> defaultDeserialize (defaultSerialize_recursive JUndefined) = Inr JNull
   \<and> (serialization (options s) = defaultSerialization
        \<and> (key \<in> fst ` set (store s) \<or> int (length (store s)) < maxKeys (options s)) \<longrightarrow>
          fst (MemoryAdapter_set now key JUndefined ttl s) = Inr ()
        \<and> map_option entry_value (map_of (store (snd (MemoryAdapter_set now key JUndefined ttl s))) key)
             = Some ''null''
        \<and> (\<forall>later entry.
              map_of (store (snd (MemoryAdapter_set now key JUndefined ttl s))) key = Some entry
              \<and> \<not> expiry_passed later entry \<longrightarrow>
              fst (MemoryAdapter_get later key (snd (MemoryAdapter_set now key JUndefined ttl s)))
                = Inr (Some JNull)))"
proof (intro conjI impI)
  show "defaultSerialize JUndefined = ''null''" by (simp add: defaultSerialize_def)
  show "defaultSerialize JUndefined = defaultSerialize JNull" by (simp add: defaultSerialize_def)
  show "defaultSerialize_recursive JUndefined = ''null''" by simp
  show "defaultSerialize_recursive JUndefined = defaultSerialize_recursive JNull" by simp
  show "defaultDeserialize (defaultSerialize JUndefined) = Inr JNull"
    by (simp add: defaultSerialize_def deserialize_null)
  show "defaultDeserialize (defaultSerialize_recursive JUndefined) = Inr JNull"
    by (simp add: deserialize_null)
next
  assume a: "serialization (options s) = defaultSerialization
        \<and> (key \<in> fst ` set (store s) \<or> int (length (store s)) < maxKeys (options s))"
  note e = set_undefined_entry[OF a[THEN conjunct1] a[THEN conjunct2], of now ttl]
  show "fst (MemoryAdapter_set now key JUndefined ttl s) = Inr ()" by (rule e(1))
  show "map_option entry_value (map_of (store (snd (MemoryAdapter_set now key JUndefined ttl s))) key)
             = Some ''null''"
    by (simp add: e(3))
  show "\<forall>later entry.
              map_of (store (snd (MemoryAdapter_set now key JUndefined ttl s))) key = Some entry
              \<and> \<not> expiry_passed later entry \<longrightarrow>
              fst (MemoryAdapter_get later key (snd (MemoryAdapter_set now key JUndefined ttl s)))
                = Inr (Some JNull)"
  proof (intro allI impI)
    fix later entry
    assume h: "map_of (store (snd (MemoryAdapter_set now key JUndefined ttl s))) key = Some entry
              \<and> \<not> expiry_passed later entry"
    then have m: "map_of (store (snd (MemoryAdapter_set now key JUndefined ttl s))) key = Some entry"
      and live: "\<not> ttl_expired later entry"
      by (simp_all add: not_passed_not_expired)
    from m e(3) have v: "entry_value entry = ''null''" by auto
    show "fst (MemoryAdapter_get later key (snd (MemoryAdapter_set now key JUndefined ttl s)))
                = Inr (Some JNull)"
      by (simp add: get_live(2)[OF m live] e(2) a[THEN conjunct1] default_codec_simps v deserialize_null)
  qed
qed

theorem undefined_is_stored_as_null_witness:
  "fst (MemoryAdapter_set 1000 ''k'' JUndefined None (adapter demo_kv)) = Inr ()
   \<and> map_option entry_value
        (map_of (store (snd (MemoryAdapter_set 1000 ''k'' JUndefined None (adapter demo_kv)))) ''k'')
        = Some ''null''
   \<and> fst (MemoryAdapter_get 2000 ''k'' (snd (MemoryAdapter_set 1000 ''k'' JUndefined None (adapter demo_kv))))
        = Inr (Some JNull)"
proof -
  let ?s' = "snd (MemoryAdapter_set 1000 ''k'' JUndefined None (adapter demo_kv))"
  let ?e = "\<lparr>entry_value = ''null'', expires = Some 6000\<rparr>"
  have codec: "serialization (options (adapter demo_kv)) = defaultSerialization"
    by (simp add: demo_kv_def MemoryAdapter_new_def)
  have a: "serialization (options (adapter demo_kv)) = defaultSerialization
        \<and> (''k'' \<in> fst ` set (store (adapter demo_kv))
            \<or> int (length (store (adapter demo_kv))) < maxKeys (options (adapter demo_kv)))"
    by (simp add: codec demo_kv_simps)
  note r = undefined_is_stored_as_null[THEN conjunct2, THEN conjunct2, THEN conjunct2,
             THEN conjunct2, THEN conjunct2, THEN conjunct2, THEN mp, OF a, of 1000 None]
  have m: "map_of (store ?s') ''k'' = Some ?e"
    by (simp add: set_undefined_entry(3)[OF a[THEN conjunct1] a[THEN conjunct2]] demo_kv_simps
          expiresAt_def effectiveTTL_def)
  have p: "map_of (store ?s') ''k'' = Some ?e \<and> \<not> expiry_passed 2000 ?e"
    by (simp add: m expiry_passed_def)
  show ?thesis
    by (intro conjI)
       (rule r[THEN conjunct1] r[THEN conjunct2, THEN conjunct1]
             r[THEN conjunct2, THEN conjunct2, THEN spec, THEN spec, THEN mp, OF p])+
qed

section \<open>Round trip\<close>

text \<open>
  C1. The round trip through the default codec fails below the top level. The first
  version of \<open>defaultSerialize\<close> escapes and encodes only a top-level string or blob and
  hands arrays and objects to \<open>JSON.stringify\<close> as they are, while the reviver of
  \<open>defaultDeserialize\<close> unescapes every string at every depth: the array holding the
  string \<open>:a\<close> comes back holding \<open>a\<close>, likewise a member of an object, and a blob inside
  an array comes back as the plain object \<open>{type: "Buffer", data: [0, 1]}\<close>. The second
  version escapes the strings inside arrays and objects, and also the property names, which
  the reviver never sees: the object with the property \<open>:a\<close> comes back with the property
  \<open>::a\<close>. At the top level the marker-prefixed string, the empty string and the empty blob
  do come back as they were.
\<close>

theorem default_codec_round_trip_fails_when_nested:
  "defaultDeserialize (defaultSerialize (JArr [JStr '':a''])) = Inr (JArr [JStr ''a''])
   \<and> defaultDeserialize (defaultSerialize (JArr [JStr '':a''])) \<noteq> Inr (JArr [JStr '':a''])
   \<and> defaultDeserialize (defaultSerialize (JObj [(''k'', JStr '':a'')])) = Inr (JObj [(''k'', JStr ''a'')])
   \<and> defaultDeserialize (defaultSerialize (JArr [JBuf [0, 1]]))
        = Inr (JArr [JObj [(''type'', JStr ''Buffer''), (''data'', JArr [JNum 0, JNum 1])]])
   \<and> defaultDeserialize (defaultSerialize (JArr [JBuf [0, 1]])) \<noteq> Inr (JArr [JBuf [0, 1]])
   \<and> defaultDeserialize (defaultSerialize_recursive (JObj [('':a'', JNum 1)]))
        = Inr (JObj [(''::a'', JNum 1)])
   \<and> defaultDeserialize (defaultSerialize_recursive (JObj [('':a'', JNum 1)]))
        \<noteq> Inr (JObj [('':a'', JNum 1)])
   \<and> defaultDeserialize (defaultSerialize_recursive (JArr [JStr '':a''])) = Inr (JArr [JStr '':a''])
   \<and> defaultDeserialize (defaultSerialize (JStr '':a'')) = Inr (JStr '':a'')
   \<and> defaultDeserialize (defaultSerialize (JStr [])) = Inr (JStr [])
   \<and> defaultDeserialize (defaultSerialize (JBuf [])) = Inr (JBuf [])"
proof -
  have 1: "defaultDeserialize (defaultSerialize (JArr [JStr '':a''])) \<noteq> Inr (JArr [JStr '':a''])"
    by (simp only: nested_marker_string_lost) simp
  have 2: "defaultDeserialize (defaultSerialize (JArr [JBuf [0, 1]])) \<noteq> Inr (JArr [JBuf [0, 1]])"
    by (simp only: nested_blob_lost) simp
  have 3: "defaultDeserialize (defaultSerialize_recursive (JObj [('':a'', JNum 1)]))
        \<noteq> Inr (JObj [('':a'', JNum 1)])"
    by (simp only: recursive_marker_key_changed) simp
  show ?thesis
    by (intro conjI)
       (rule nested_marker_string_lost 1 nested_marker_member_lost nested_blob_lost 2
             recursive_marker_key_changed 3 recursive_nested_marker_string_kept
             roundtrip_top_level_marker_string roundtrip_empty_string roundtrip_empty_blob)+
qed

section \<open>Capacity\<close>

text \<open>
  C2. In every state an adapter can reach, a \<open>set\<close> that succeeds leaves at most
  \<open>maxKeys\<close> entries, and it has written the entry: the key holds the serialized value
  with the expiry computed for this call, and every other key holds what it held. In any
  state, a \<open>set\<close> of a key that is not present, when the map holds \<open>maxKeys\<close> entries or
  more, is rejected and returns the adapter as it was, map and counters. A \<open>set\<close> of a
  key that is present succeeds whenever the codec serializes the value, whatever the size
  of the map: the number of entries stays the same, the entry of the key is replaced by
  the new one, and the other entries are untouched. All of this holds of the final
  \<open>MemoryAdapter\<close> and of \<open>EnhancedMemoryAdapter\<close>, each over its own reachable states.
\<close>

theorem capacity_invariant:
  "(reachable s \<and> MemoryAdapter_set now key v ttl s = (Inr u, s')
      \<longrightarrow> int (length (store s')) \<le> maxKeys (options s')
          \<and> (\<exists>ser. serialize (serialization (options s)) v = Inr ser
                 \<and> map_of (store s') key =
                     Some \<lparr>entry_value = ser,
                           expires = expiresAt now (effectiveTTL (defaultTTL (options s)) ttl)\<rparr>)
          \<and> (\<forall>k. k \<noteq> key \<longrightarrow> map_of (store s') k = map_of (store s) k))
   \<and> (key \<notin> fst ` set (store s) \<and> int (length (store s)) \<ge> maxKeys (options s)
      \<longrightarrow> MemoryAdapter_set now key v ttl s = (Inl (MaxKeysLimit (maxKeys (options s))), s))
   \<and> (key \<in> fst ` set (store s) \<and> serialize (serialization (options s)) v = Inr ser
      \<longrightarrow> fst (MemoryAdapter_set now key v ttl s) = Inr ()
          \<and> length (store (snd (MemoryAdapter_set now key v ttl s))) = length (store s)
          \<and> map_of (store (snd (MemoryAdapter_set now key v ttl s))) key =
               Some \<lparr>entry_value = ser,
                     expires = expiresAt now (effectiveTTL (defaultTTL (options s)) ttl)\<rparr>
          \<and> (\<forall>k. k \<noteq> key \<longrightarrow>
                 map_of (store (snd (MemoryAdapter_set now key v ttl s))) k = map_of (store s) k))
   \<and> (enhanced_reachable t \<and> EnhancedMemoryAdapter_set now key v ttl t = (Inr u, t')
      \<longrightarrow> int (length (e_store t')) \<le> e_maxKeys (e_options t')
          \<and> (\<exists>ser. e_serialize (e_options t) v = Inr ser
                 \<and> map_of (e_store t') key =
                     Some \<lparr>entry_value = ser,
                           expires = expiresAt now (effectiveTTL (e_defaultTTL (e_options t)) ttl)\<rparr>)
          \<and> (\<forall>k. k \<noteq> key \<longrightarrow> map_of (e_store t') k = map_of (e_store t) k))
   \<and> (key \<notin> fst ` set (e_store t) \<and> int (length (e_store t)) \<ge> e_maxKeys (e_options t)
      \<longrightarrow> EnhancedMemoryAdapter_set now key v ttl t = (Inl (MaxKeysLimit (e_maxKeys (e_options t))), t))
   \<and> (key \<in> fst ` set (e_store t) \<and> e_serialize (e_options t) v = Inr ser
      \<longrightarrow> fst (EnhancedMemoryAdapter_set now key v ttl t) = Inr ()
          \<and> length (e_store (snd (EnhancedMemoryAdapter_set now key v ttl t))) = length (e_store t)
          \<and> map_of (e_store (snd (EnhancedMemoryAdapter_set now key v ttl t))) key =
               Some \<lparr>entry_value = ser,
                     expires = expiresAt now (effectiveTTL (e_defaultTTL (e_options t)) ttl)\<rparr>
          \<and> (\<forall>k. k \<noteq> key \<longrightarrow>
                 map_of (e_store (snd (EnhancedMemoryAdapter_set now key v ttl t))) k
                   = map_of (e_store t) k))"
proof (intro conjI impI)
  assume a: "reachable s \<and> MemoryAdapter_set now key v ttl s = (Inr u, s')"
  then have r: "reachable s" and ok: "MemoryAdapter_set now key v ttl s = (Inr u, s')"
    by simp_all
  from reachable_store_ok[OF r] have "within_capacity s" by (simp add: store_ok_def)
  then show "int (length (store s')) \<le> maxKeys (options s')" by (rule set_success_size[OF ok])
  show "\<exists>ser. serialize (serialization (options s)) v = Inr ser
                 \<and> map_of (store s') key =
                     Some \<lparr>entry_value = ser,
                           expires = expiresAt now (effectiveTTL (defaultTTL (options s)) ttl)\<rparr>"
    by (rule set_success_writes[OF ok, THEN conjunct1])
  show "\<forall>k. k \<noteq> key \<longrightarrow> map_of (store s') k = map_of (store s) k"
    by (rule set_success_writes[OF ok, THEN conjunct2])
next
  assume "key \<notin> fst ` set (store s) \<and> int (length (store s)) \<ge> maxKeys (options s)"
  then show "MemoryAdapter_set now key v ttl s = (Inl (MaxKeysLimit (maxKeys (options s))), s)"
    by (simp add: set_new_key_at_capacity)
next
  assume a: "key \<in> fst ` set (store s) \<and> serialize (serialization (options s)) v = Inr ser"
  then have k: "key \<in> fst ` set (store s)" and c: "serialize (serialization (options s)) v = Inr ser"
    by simp_all
  note w = set_present_key_writes[OF k c, of now ttl]
  show "fst (MemoryAdapter_set now key v ttl s) = Inr ()" by (rule w(1))
  show "length (store (snd (MemoryAdapter_set now key v ttl s))) = length (store s)" by (rule w(2))
  show "map_of (store (snd (MemoryAdapter_set now key v ttl s))) key =
               Some \<lparr>entry_value = ser,
                     expires = expiresAt now (effectiveTTL (defaultTTL (options s)) ttl)\<rparr>"
    by (rule w(3))
  show "\<forall>k. k \<noteq> key \<longrightarrow>
                 map_of (store (snd (MemoryAdapter_set now key v ttl s))) k = map_of (store s) k"
    by (rule w(4))
next
  assume a: "enhanced_reachable t \<and> EnhancedMemoryAdapter_set now key v ttl t = (Inr u, t')"
  then have r: "enhanced_reachable t" and ok: "EnhancedMemoryAdapter_set now key v ttl t = (Inr u, t')"
    by simp_all
  from enhanced_reachable_within_capacity[OF r]
  have inv: "e_store t = [] \<or> int (length (e_store t)) \<le> e_maxKeys (e_options t)"
    by (simp add: enhanced_within_capacity_def)
  show "int (length (e_store t')) \<le> e_maxKeys (e_options t')"
    by (rule enhanced_set_success_size[OF ok inv])
  show "\<exists>ser. e_serialize (e_options t) v = Inr ser
                 \<and> map_of (e_store t') key =
                     Some \<lparr>entry_value = ser,
                           expires = expiresAt now (effectiveTTL (e_defaultTTL (e_options t)) ttl)\<rparr>"
    by (rule enhanced_set_success_writes[OF ok, THEN conjunct1])
  show "\<forall>k. k \<noteq> key \<longrightarrow> map_of (e_store t') k = map_of (e_store t) k"
    by (rule enhanced_set_success_writes[OF ok, THEN conjunct2])
next
  assume "key \<notin> fst ` set (e_store t) \<and> int (length (e_store t)) \<ge> e_maxKeys (e_options t)"
  then show "EnhancedMemoryAdapter_set now key v ttl t = (Inl (MaxKeysLimit (e_maxKeys (e_options t))), t)"
    by (simp add: enhanced_set_new_key_at_capacity)
next
  assume a: "key \<in> fst ` set (e_store t) \<and> e_serialize (e_options t) v = Inr ser"
  then have k: "key \<in> fst ` set (e_store t)" and c: "e_serialize (e_options t) v = Inr ser"
    by simp_all
  note w = enhanced_set_present_key_writes[OF k c, of now ttl]
  show "fst (EnhancedMemoryAdapter_set now key v ttl t) = Inr ()" by (rule w(1))
  show "length (e_store (snd (EnhancedMemoryAdapter_set now key v ttl t))) = length (e_store t)"
    by (rule w(2))
  show "map_of (e_store (snd (EnhancedMemoryAdapter_set now key v ttl t))) key =
               Some \<lparr>entry_value = ser,
                     expires = expiresAt now (effectiveTTL (e_defaultTTL (e_options t)) ttl)\<rparr>"
    by (rule w(3))
  show "\<forall>k. k \<noteq> key \<longrightarrow>
                 map_of (e_store (snd (EnhancedMemoryAdapter_set now key v ttl t))) k
                   = map_of (e_store t) k"
    by (rule w(4))
qed

theorem capacity_invariant_witness:
  "reachable demo_full
   \<and> MemoryAdapter_set 5 ''c'' ''3'' None demo_full = (Inl (MaxKeysLimit 2), demo_full)
   \<and> fst (MemoryAdapter_set 5 ''a'' ''3'' (Some 10) demo_full) = Inr ()
   \<and> int (length (store (snd (MemoryAdapter_set 5 ''a'' ''3'' (Some 10) demo_full)))) \<le> 2
   \<and> length (store (snd (MemoryAdapter_set 5 ''a'' ''3'' (Some 10) demo_full))) = length (store demo_full)
   \<and> map_of (store (snd (MemoryAdapter_set 5 ''a'' ''3'' (Some 10) demo_full))) ''a''
        = Some \<lparr>entry_value = ''3'', expires = Some 15\<rparr>
   \<and> map_of (store (snd (MemoryAdapter_set 5 ''a'' ''3'' (Some 10) demo_full))) ''b''
        = Some \<lparr>entry_value = ''2'', expires = None\<rparr>
   \<and> enhanced_reachable demo_enhanced_full
   \<and> EnhancedMemoryAdapter_set 5 ''c'' ''3'' None demo_enhanced_full
        = (Inl (MaxKeysLimit 2), demo_enhanced_full)
   \<and> fst (EnhancedMemoryAdapter_set 5 ''a'' ''3'' (Some 10) demo_enhanced_full) = Inr ()
   \<and> int (length (e_store (snd (EnhancedMemoryAdapter_set 5 ''a'' ''3'' (Some 10) demo_enhanced_full)))) \<le> 2
   \<and> map_of (e_store (snd (EnhancedMemoryAdapter_set 5 ''a'' ''3'' (Some 10) demo_enhanced_full))) ''a''
        = Some \<lparr>entry_value = ''3'', expires = Some 15\<rparr>
   \<and> map_of (e_store (snd (EnhancedMemoryAdapter_set 5 ''a'' ''3'' (Some 10) demo_enhanced_full))) ''b''
        = Some \<lparr>entry_value = ''2'', expires = None\<rparr>"
proof -
  let ?s' = "snd (MemoryAdapter_set 5 ''a'' ''3'' (Some 10) demo_full)"
  let ?t' = "snd (EnhancedMemoryAdapter_set 5 ''a'' ''3'' (Some 10) demo_enhanced_full)"
  note c_new = capacity_invariant[of demo_full 5 "''c''" "''3''" None "()" ?s' "''3''"
                  demo_enhanced_full ?t']
  note c_old = capacity_invariant[of demo_full 5 "''a''" "''3''" "Some 10" "()" ?s' "''3''"
                  demo_enhanced_full ?t']
  have new_key: "''c'' \<notin> fst ` set (store demo_full) \<and> int (length (store demo_full)) \<ge> maxKeys (options demo_full)"
    by (simp add: demo_full_store demo_config_simps)
  have old_key: "''a'' \<in> fst ` set (store demo_full) \<and> serialize (serialization (options demo_full)) ''3'' = Inr ''3''"
    by (simp add: demo_full_store demo_config_simps)
  have e_new_key: "''c'' \<notin> fst ` set (e_store demo_enhanced_full)
       \<and> int (length (e_store demo_enhanced_full)) \<ge> e_maxKeys (e_options demo_enhanced_full)"
    by (simp add: demo_enhanced_full_store demo_enhanced_config_def)
  have e_old_key: "''a'' \<in> fst ` set (e_store demo_enhanced_full)
       \<and> e_serialize (e_options demo_enhanced_full) ''3'' = Inr ''3''"
    by (simp add: demo_enhanced_full_store demo_enhanced_config_def)
  have mk: "maxKeys (options demo_full) = 2" "e_maxKeys (e_options demo_enhanced_full) = 2"
    by (simp_all add: demo_full_store demo_config_simps demo_enhanced_full_store demo_enhanced_config_def)
  have ex: "expiresAt 5 (effectiveTTL (defaultTTL (options demo_full)) (Some 10)) = Some 15"
    "expiresAt 5 (effectiveTTL (e_defaultTTL (e_options demo_enhanced_full)) (Some 10)) = Some 15"
    by (simp_all add: expiresAt_def effectiveTTL_def)
  have b: "map_of (store demo_full) ''b'' = Some \<lparr>entry_value = ''2'', expires = None\<rparr>"
    "map_of (e_store demo_enhanced_full) ''b'' = Some \<lparr>entry_value = ''2'', expires = None\<rparr>"
    by (simp_all add: demo_full_store demo_enhanced_full_store)
  have ne: "''b'' \<noteq> ''a''" by simp
  have w2: "MemoryAdapter_set 5 ''c'' ''3'' None demo_full = (Inl (MaxKeysLimit 2), demo_full)"
    using c_new[THEN conjunct2, THEN conjunct1, THEN mp, OF new_key] by (simp only: mk)
  note old = c_old[THEN conjunct2, THEN conjunct2, THEN conjunct1, THEN mp, OF old_key]
  have w3: "fst (MemoryAdapter_set 5 ''a'' ''3'' (Some 10) demo_full) = Inr ()"
    by (rule old[THEN conjunct1])
  have w5: "length (store ?s') = length (store demo_full)"
    by (rule old[THEN conjunct2, THEN conjunct1])
  have w6: "map_of (store ?s') ''a'' = Some \<lparr>entry_value = ''3'', expires = Some 15\<rparr>"
    using old[THEN conjunct2, THEN conjunct2, THEN conjunct1] by (simp only: ex)
  have w7: "map_of (store ?s') ''b'' = Some \<lparr>entry_value = ''2'', expires = None\<rparr>"
    using old[THEN conjunct2, THEN conjunct2, THEN conjunct2, THEN spec, THEN mp, OF ne]
    by (simp only: b)
  have res: "MemoryAdapter_set 5 ''a'' ''3'' (Some 10) demo_full = (Inr (), ?s')"
    by (rule prod_eqI) (simp_all add: w3)
  have bound: "int (length (store ?s')) \<le> maxKeys (options ?s')"
    by (rule c_old[THEN conjunct1, THEN mp, OF conjI[OF demo_full_reachable res], THEN conjunct1])
  have "options ?s' = options demo_full"
    using set_success_store[OF res] by (rule exE) simp
  with bound have w4: "int (length (store ?s')) \<le> 2" by (simp only: mk)
  have e2: "EnhancedMemoryAdapter_set 5 ''c'' ''3'' None demo_enhanced_full
              = (Inl (MaxKeysLimit 2), demo_enhanced_full)"
    using c_new[THEN conjunct2, THEN conjunct2, THEN conjunct2, THEN conjunct2, THEN conjunct1,
                THEN mp, OF e_new_key]
    by (simp only: mk)
  note eold = c_old[THEN conjunct2, THEN conjunct2, THEN conjunct2, THEN conjunct2, THEN conjunct2,
                   THEN mp, OF e_old_key]
  have e3: "fst (EnhancedMemoryAdapter_set 5 ''a'' ''3'' (Some 10) demo_enhanced_full) = Inr ()"
    by (rule eold[THEN conjunct1])
  have e6: "map_of (e_store ?t') ''a'' = Some \<lparr>entry_value = ''3'', expires = Some 15\<rparr>"
    using eold[THEN conjunct2, THEN conjunct2, THEN conjunct1] by (simp only: ex)
  have e7: "map_of (e_store ?t') ''b'' = Some \<lparr>entry_value = ''2'', expires = None\<rparr>"
    using eold[THEN conjunct2, THEN conjunct2, THEN conjunct2, THEN spec, THEN mp, OF ne]
    by (simp only: b)
  have eres: "EnhancedMemoryAdapter_set 5 ''a'' ''3'' (Some 10) demo_enhanced_full = (Inr (), ?t')"
    by (rule prod_eqI) (simp_all add: e3)
  have ebound: "int (length (e_store ?t')) \<le> e_maxKeys (e_options ?t')"
    by (rule c_old[THEN conjunct2, THEN conjunct2, THEN conjunct2, THEN conjunct1, THEN mp,
                   OF conjI[OF demo_enhanced_full_reachable eres], THEN conjunct1])
  have "e_options ?t' = e_options demo_enhanced_full"
    using enhanced_set_success_store[OF eres] by (rule exE) simp
  with ebound have e4: "int (length (e_store ?t')) \<le> 2" by (simp only: mk)
  show ?thesis
    by (intro conjI)
       (rule demo_full_reachable w2 w3 w4 w5 w6 w7 demo_enhanced_full_reachable e2 e3 e4 e6 e7)+
qed

end
